theory Spec2Isabelle
  imports Complex_Main "HOL-Library.Multiset"
begin

section \<open>Errors raised by the Python code\<close>

text \<open>
  Every exception that the modelled code (or a library routine it calls) can raise is a
  value of this type; a function that can raise returns \<open>error + 'a\<close>, with \<open>Inl\<close> the
  exception.
\<close>

datatype error = ValueError | IndexError | RuntimeError

section \<open>Segment-recombination augmentation: \<open>interaug\<close> of \<open>utils.py\<close>\<close>

subsection \<open>The random generator\<close>

text \<open>
  \<open>np.random\<close> is a global generator. It is modelled as an infinite stream of raw draws
  that is threaded through the calls; a call consumes a prefix of the stream and returns
  the rest. Nothing is assumed about the stream.
\<close>

type_synonym rng = "nat \<Rightarrow> nat"

definition advance :: "nat \<Rightarrow> rng \<Rightarrow> rng" where
  "advance n g = (\<lambda>i. g (i + n))"

text \<open>
  \<open>np.random.randint(low, high, n)\<close>: \<open>n\<close> integers of the half-open interval
  \<open>[low, high)\<close>; an empty interval raises \<open>ValueError\<close> (``low >= high'').
\<close>

definition randint :: "nat \<Rightarrow> nat \<Rightarrow> nat \<Rightarrow> rng \<Rightarrow> error + (nat list \<times> rng)" where
  "randint low high n g =
     (if high \<le> low then Inl ValueError
      else Inr (map (\<lambda>i. low + g i mod (high - low)) [0..<n], advance n g))"

text \<open>
  \<open>np.random.permutation(n)\<close> shuffles \<open>arange(n)\<close>: for \<open>i\<close> from \<open>n - 1\<close> down to
  \<open>1\<close> the entry at \<open>i\<close> is exchanged with the entry at a random \<open>j\<close> of \<open>[0, i]\<close>.
\<close>

fun shuffle :: "nat \<Rightarrow> nat list \<Rightarrow> rng \<Rightarrow> nat list \<times> rng" where
  "shuffle 0 xs g = (xs, g)"
| "shuffle (Suc i) xs g =
     (let j = g 0 mod (Suc (Suc i))
      in shuffle i (xs[Suc i := xs ! j, j := xs ! Suc i]) (advance 1 g))"

definition permutation :: "nat \<Rightarrow> rng \<Rightarrow> nat list \<times> rng" where
  "permutation n g = shuffle (n - 1) [0..<n] g"

subsection \<open>Arrays\<close>

text \<open>
  A window is an array of shape \<open>(1, 22, 1125)\<close>: a nested list, outermost axis first.
  The sample type is left open: the loops only copy samples and fill the rest with
  zeros.
\<close>

type_synonym 'a window = "'a list list list"

definition window_shape_ok :: "'a window \<Rightarrow> bool" where
  "window_shape_ok w =
     (length w = 1 \<and> list_all (\<lambda>p. length p = 22 \<and> list_all (\<lambda>r. length r = 1125) p) w)"

definition zeros_window :: "'a::zero window" where
  "zeros_window = replicate 1 (replicate 22 (replicate 1125 0))"

text \<open>The slice \<open>xs[lo:hi]\<close> for \<open>lo \<le> hi\<close>.\<close>

definition slice :: "nat \<Rightarrow> nat \<Rightarrow> 'a list \<Rightarrow> 'a list" where
  "slice lo hi xs = take (hi - lo) (drop lo xs)"

text \<open>The segment \<open>w[:, :, rj * 125:(rj + 1) * 125]\<close> of a window.\<close>

definition segment :: "nat \<Rightarrow> 'a window \<Rightarrow> 'a window" where
  "segment rj w = map (map (slice (rj * 125) ((rj + 1) * 125))) w"

text \<open>
  numpy broadcasting of one axis to length \<open>n\<close>: the axis has length \<open>n\<close> already, or it
  has length 1 and its entry is repeated; anything else is a shape mismatch.
\<close>

definition broadcastable :: "nat \<Rightarrow> 'a list \<Rightarrow> bool" where
  "broadcastable n xs = (length xs = n \<or> length xs = 1)"

definition broadcast :: "nat \<Rightarrow> 'a list \<Rightarrow> 'a list" where
  "broadcast n xs = (if length xs = n then xs else replicate n (hd xs))"

text \<open>
  The assignment \<open>tgt[:, :, rj * 125:(rj + 1) * 125] = src[:, :, rj * 125:(rj + 1) * 125]\<close>
  into a synthetic window \<open>tgt\<close> (one entry of \<open>tmp_aug_data\<close>, of shape
  \<open>(1, 22, 1125)\<close>): the right-hand side is broadcast to the shape \<open>(1, 22, 125)\<close> of the
  target view, and a right-hand side that cannot be broadcast raises \<open>ValueError\<close>.
\<close>

definition set_segment :: "nat \<Rightarrow> 'a window \<Rightarrow> 'a window \<Rightarrow> error + 'a window" where
  "set_segment rj tgt src =
     (let lo = rj * 125; hi = (rj + 1) * 125; v = segment rj src
      in if broadcastable 1 v \<and>
            list_all (\<lambda>p. broadcastable 22 p \<and> list_all (broadcastable 125) p) v
         then Inr (map2 (\<lambda>tp vp. map2 (\<lambda>trow vrow. take lo trow @ vrow @ drop hi trow)
                                 tp (broadcast 22 (map (broadcast 125) vp)))
                        tgt (broadcast 1 v))
         else Inl ValueError)"

text \<open>\<open>np.where(label == c)\<close>: the positions of the labels equal to \<open>c\<close>, in order.\<close>

definition where_eq :: "int list \<Rightarrow> int \<Rightarrow> nat list" where
  "where_eq label c = filter (\<lambda>i. label ! i = c) [0..<length label]"

text \<open>
  Indexing the first axis with an index array, \<open>a[idx]\<close>: an index outside the array
  raises \<open>IndexError\<close>.
\<close>

definition index_rows :: "'a list \<Rightarrow> nat list \<Rightarrow> error + 'a list" where
  "index_rows a idx =
     (if list_all (\<lambda>i. i < length a) idx then Inr (map (nth a) idx) else Inl IndexError)"

subsection \<open>The routine\<close>

text \<open>
  The loop \<open>for rj in range(8)\<close> for one synthetic window \<open>w\<close>: eight indices are drawn
  at every turn, the \<open>rj\<close>-th of them selects the source window.
\<close>

fun fill_segments ::
  "nat list \<Rightarrow> 'a window list \<Rightarrow> 'a window \<Rightarrow> rng \<Rightarrow> error + ('a window \<times> rng)" where
  "fill_segments [] tmp_data w g = Inr (w, g)"
| "fill_segments (rj # rjs) tmp_data w g =
     (case randint 0 (length tmp_data) 8 g of
        Inl e \<Rightarrow> Inl e
      | Inr (rand_idx, g') \<Rightarrow>
          (case set_segment rj w (tmp_data ! (rand_idx ! rj)) of
             Inl e \<Rightarrow> Inl e
           | Inr w' \<Rightarrow> fill_segments rjs tmp_data w' g'))"

text \<open>The loop \<open>for ri in range(int(batch_size / 4))\<close> over the rows of \<open>np.zeros(...)\<close>.\<close>

fun fill_windows ::
  "nat \<Rightarrow> 'a::zero window list \<Rightarrow> rng \<Rightarrow> error + ('a window list \<times> rng)" where
  "fill_windows 0 tmp_data g = Inr ([], g)"
| "fill_windows (Suc n) tmp_data g =
     (case fill_segments [0..<8] tmp_data zeros_window g of
        Inl e \<Rightarrow> Inl e
      | Inr (w, g') \<Rightarrow>
          (case fill_windows n tmp_data g' of
             Inl e \<Rightarrow> Inl e
           | Inr (ws, g'') \<Rightarrow> Inr (w # ws, g'')))"

text \<open>
  \<open>int(batch_size / 4)\<close>: the quotient, truncated towards zero. \<open>np.zeros\<close> raises
  \<open>ValueError\<close> for a negative dimension.
\<close>

definition quarter :: "int \<Rightarrow> int" where
  "quarter batch_size = (if 0 \<le> batch_size then batch_size div 4 else - ((- batch_size) div 4))"

text \<open>The body of \<open>for cls4aug in range(4)\<close>.\<close>

definition augment_class ::
  "'a::zero window list \<Rightarrow> int list \<Rightarrow> int \<Rightarrow> int \<Rightarrow> rng \<Rightarrow>
     error + (('a window list \<times> int list) \<times> rng)" where
  "augment_class timg label batch_size cls4aug g =
     (let cls_idx = where_eq label cls4aug
      in case index_rows timg cls_idx of
           Inl e \<Rightarrow> Inl e
         | Inr tmp_data \<Rightarrow>
             (case index_rows label cls_idx of
                Inl e \<Rightarrow> Inl e
              | Inr tmp_label \<Rightarrow>
                  if quarter batch_size < 0 then Inl ValueError
                  else (case fill_windows (nat (quarter batch_size)) tmp_data g of
                          Inl e \<Rightarrow> Inl e
                        | Inr (tmp_aug_data, g') \<Rightarrow> Inr ((tmp_aug_data, tmp_label), g'))))"

fun class_loop ::
  "int list \<Rightarrow> 'a::zero window list \<Rightarrow> int list \<Rightarrow> int \<Rightarrow> rng \<Rightarrow>
     error + (('a window list \<times> int list) list \<times> rng)" where
  "class_loop [] timg label batch_size g = Inr ([], g)"
| "class_loop (cls4aug # rest) timg label batch_size g =
     (case augment_class timg label batch_size cls4aug g of
        Inl e \<Rightarrow> Inl e
      | Inr (part, g') \<Rightarrow>
          (case class_loop rest timg label batch_size g' of
             Inl e \<Rightarrow> Inl e
           | Inr (parts, g'') \<Rightarrow> Inr (part # parts, g'')))"

text \<open>
  \<open>aug_data.float()\<close>: every sample is converted to a 32-bit float. Floating-point
  numbers are not modelled, so the conversion of one sample is a parameter \<open>to_float32\<close>
  of the routine: a 32-bit sample comes back as it is, a sample that 32 bits cannot hold
  comes back rounded.
\<close>

definition float_window :: "('a \<Rightarrow> 'b) \<Rightarrow> 'a window \<Rightarrow> 'b window" where
  "float_window to_float32 w = map (map (map to_float32)) w"

text \<open>
  \<open>interaug(timg, label, batch_size)\<close>. The lists \<open>aug_data\<close> and \<open>aug_label\<close> are
  concatenated, one permutation of \<open>len(aug_data)\<close> is drawn, and both arrays are indexed
  with it; then the windows are converted to 32-bit floats. (\<open>from_numpy\<close>, \<open>to(device)\<close>
  and \<open>long\<close> leave the entries of the two arrays as they are.)
\<close>

definition interaug ::
  "('a \<Rightarrow> 'b) \<Rightarrow> 'a::zero window list \<Rightarrow> int list \<Rightarrow> int \<Rightarrow> rng \<Rightarrow>
     error + ('b window list \<times> int list)" where
  "interaug to_float32 timg label batch_size g =
     (case class_loop [0, 1, 2, 3] timg label batch_size g of
        Inl e \<Rightarrow> Inl e
      | Inr (parts, g') \<Rightarrow>
          (let aug_data = concat (map fst parts);
               aug_label = concat (map snd parts);
               aug_shuffle = fst (permutation (length aug_data) g')
           in case index_rows aug_data aug_shuffle of
                Inl e \<Rightarrow> Inl e
              | Inr shuffled_data \<Rightarrow>
                  (case index_rows aug_label aug_shuffle of
                     Inl e \<Rightarrow> Inl e
                   | Inr shuffled_label \<Rightarrow>
                       Inr (map (float_window to_float32) shuffled_data, shuffled_label))))"


subsection \<open>Notions used to state the properties of \<open>interaug\<close>\<close>

text \<open>
  The array \<open>aug_label\<close> before the shuffle: the labels of the input batch that equal
  0, then those that equal 1, 2 and 3 (\<open>tmp_label\<close> of the four turns, concatenated).
\<close>

definition class_labels :: "int list \<Rightarrow> int list" where
  "class_labels label = concat (map (\<lambda>c. filter (\<lambda>l. l = c) label) [0, 1, 2, 3])"

text \<open>
  A synthetic window \<open>w\<close> built for class \<open>c\<close>: it has the shape \<open>(1, 22, 1125)\<close>,
  each of its eight segments is the same segment of an input window labelled \<open>c\<close>, and
  the samples from 1000 on are the zeros of \<open>np.zeros\<close>.
\<close>

definition spliced_from :: "'a::zero window list \<Rightarrow> int list \<Rightarrow> int \<Rightarrow> 'a window \<Rightarrow> bool" where
  "spliced_from timg label c w =
     (window_shape_ok w \<and> segment 8 w = segment 8 zeros_window \<and>
      (\<forall>j<8. \<exists>s. s < length label \<and> s < length timg \<and> label ! s = c \<and>
                segment j w = segment j (timg ! s)))"

section \<open>The classifier: \<open>networks.py\<close>\<close>

subsection \<open>The sinusoidal table of \<open>PositionalEncoding\<close>\<close>

text \<open>
  A two-dimensional tensor is its shape and its entries (real numbers stand for the
  floating-point entries). The shape is kept apart from the entries, since a tensor with
  no rows still has a number of columns, and assignments compare the shapes.
\<close>

record tensor2 =
  rows :: nat
  cols :: nat
  entry :: "nat \<Rightarrow> nat \<Rightarrow> real"

definition zeros2 :: "nat \<Rightarrow> nat \<Rightarrow> tensor2" where
  "zeros2 r c = \<lparr>rows = r, cols = c, entry = (\<lambda>i j. 0)\<rparr>"

text \<open>The number of entries of \<open>range(start, stop, step)\<close>, for a positive step.\<close>

definition range_len :: "nat \<Rightarrow> nat \<Rightarrow> nat \<Rightarrow> nat" where
  "range_len start stop step = (stop - start + step - 1) div step"

text \<open>
  The assignment \<open>tgt[:, start::step] = src\<close>. The view \<open>tgt[:, start::step]\<close> has the rows
  of the target and \<open>range_len start (cols tgt) step\<close> columns. The right-hand side is
  expanded to the shape of the view: each of its two sizes is the size of the view or is
  1 (a size of 1 expands to any size, 0 included); otherwise the assignment raises
  \<open>RuntimeError\<close>.
\<close>

definition setitem_cols :: "nat \<Rightarrow> nat \<Rightarrow> tensor2 \<Rightarrow> tensor2 \<Rightarrow> error + tensor2" where
  "setitem_cols start step tgt src =
     (let n = range_len start (cols tgt) step
      in if (rows src = rows tgt \<or> rows src = 1) \<and> (cols src = n \<or> cols src = 1)
         then Inr (tgt\<lparr>entry := (\<lambda>i j.
                  if i < rows tgt \<and> start \<le> j \<and> j < cols tgt \<and> (j - start) mod step = 0
                  then entry src (if rows src = 1 then 0 else i)
                                 (if cols src = 1 then 0 else (j - start) div step)
                  else entry tgt i j)\<rparr>)
         else Inl RuntimeError)"

text \<open>
  \<open>PositionalEncoding.__init__(input_embedding_size, num_channels)\<close>. \<open>div_term\<close> has one
  entry for every number of \<open>arange(0, input_embedding_size, 2)\<close>; the product
  \<open>position * div_term\<close> has \<open>num_channels\<close> rows and as many columns as \<open>div_term\<close> has
  entries. (The final \<open>unsqueeze(0)\<close> adds a leading axis of length 1.)
\<close>

definition div_term :: "nat \<Rightarrow> nat \<Rightarrow> real" where
  "div_term input_embedding_size i =
     exp (real (2 * i) * (- ln 10000 / real input_embedding_size))"

definition PositionalEncoding_init :: "nat \<Rightarrow> nat \<Rightarrow> error + tensor2" where
  "PositionalEncoding_init input_embedding_size num_channels =
     (let pos_encoding = zeros2 num_channels input_embedding_size;
          m = range_len 0 input_embedding_size 2;
          sines = \<lparr>rows = num_channels, cols = m,
                   entry = (\<lambda>p i. sin (real p * div_term input_embedding_size i))\<rparr>;
          cosines = \<lparr>rows = num_channels, cols = m,
                     entry = (\<lambda>p i. cos (real p * div_term input_embedding_size i))\<rparr>
      in case setitem_cols 0 2 pos_encoding sines of
           Inl e \<Rightarrow> Inl e
         | Inr pos_encoding' \<Rightarrow> setitem_cols 1 2 pos_encoding' cosines)"

definition shape2 :: "tensor2 \<Rightarrow> nat \<times> nat" where
  "shape2 t = (rows t, cols t)"

subsection \<open>\<open>TransformerBlock\<close>\<close>

text \<open>
  Tensors of rank 2, 3 and 4 are nested lists of reals. The layers of a block are library
  modules with learned parameters: each is a field of the record, a function on tensors.
  \<open>nn.Dropout\<close> is modelled by what it computes: in training mode an entry is kept and
  divided by \<open>1 - p\<close>, or replaced by 0, as the mask drawn for the call says; in
  evaluation mode the input is returned. The sum \<open>x + y\<close> is taken entry by entry; the
  two tensors that \<open>forward\<close> adds have the same shape, since every layer of a block
  keeps the shape of its input.
\<close>

type_synonym tensor3 = "real list list list"

type_synonym mask = "nat \<Rightarrow> nat \<Rightarrow> nat \<Rightarrow> bool"

definition add :: "tensor3 \<Rightarrow> tensor3 \<Rightarrow> tensor3" where
  "add x y = map2 (map2 (map2 (+))) x y"

definition dropout :: "real \<Rightarrow> bool \<Rightarrow> mask \<Rightarrow> tensor3 \<Rightarrow> tensor3" where
  "dropout p training_mode keep x =
     (if training_mode
      then map (\<lambda>i. map (\<lambda>j. map (\<lambda>k. if keep i j k then x ! i ! j ! k / (1 - p) else 0)
                                   [0..<length (x ! i ! j)])
                         [0..<length (x ! i)])
               [0..<length x]
      else x)"

record TransformerBlock =
  self_attn :: "tensor3 \<Rightarrow> tensor3"
  norm1 :: "tensor3 \<Rightarrow> tensor3"
  linear1 :: "tensor3 \<Rightarrow> tensor3"
  linear2 :: "tensor3 \<Rightarrow> tensor3"
  norm2 :: "tensor3 \<Rightarrow> tensor3"
  dropout_p :: real
  silu :: "tensor3 \<Rightarrow> tensor3"
  training :: bool

text \<open>
  \<open>TransformerBlock.forward(x)\<close>, statement by statement; \<open>m1\<close> and \<open>m2\<close> are the masks
  drawn by the two calls of \<open>self.dropout\<close>.
\<close>

definition TransformerBlock_forward :: "TransformerBlock \<Rightarrow> mask \<Rightarrow> mask \<Rightarrow> tensor3 \<Rightarrow> tensor3" where
  "TransformerBlock_forward blk m1 m2 x =
     (let attn_output = self_attn blk x;
          x = add x (dropout (dropout_p blk) (training blk) m1 attn_output);
          x = norm1 blk (add x attn_output);
          ff_output = linear1 blk x;
          ff_output = linear2 blk ff_output;
          x = add x (dropout (dropout_p blk) (training blk) m2 ff_output);
          x = norm2 blk x;
          x = silu blk x
      in x)"


subsection \<open>\<open>EEGTransformer\<close>\<close>

type_synonym tensor2l = "real list list"

type_synonym tensor4 = "real list list list list"

record EEGTransformer =
  input_embedding :: "tensor3 \<Rightarrow> tensor3"
  pos_encoding :: tensor2
  encoder :: "TransformerBlock list"
  convnet :: "tensor4 \<Rightarrow> tensor3"
  fc :: "tensor2l \<Rightarrow> tensor2l"

text \<open>
  \<open>EEGTransformer.__init__\<close>. The layers that come from the library are built with
  random initial parameters; they are arguments here (\<open>embedding\<close> for line 55, \<open>blocks\<close>
  for lines 57 to 61, \<open>stack\<close> for lines 62 to 73, \<open>head\<close> for lines 74 to 77). Line 56
  builds the \<open>PositionalEncoding\<close> of this file, and a failure there ends the
  construction.
\<close>

definition EEGTransformer_init ::
  "nat \<Rightarrow> nat \<Rightarrow> (tensor3 \<Rightarrow> tensor3) \<Rightarrow> TransformerBlock list \<Rightarrow> (tensor4 \<Rightarrow> tensor3) \<Rightarrow>
   (tensor2l \<Rightarrow> tensor2l) \<Rightarrow> error + EEGTransformer" where
  "EEGTransformer_init num_channels input_embedding_size embedding blocks stack head =
     (case PositionalEncoding_init input_embedding_size num_channels of
        Inl e \<Rightarrow> Inl e
      | Inr table \<Rightarrow>
          Inr \<lparr>input_embedding = embedding, pos_encoding = table, encoder = blocks,
               convnet = stack, fc = head\<rparr>)"

text \<open>\<open>x.unsqueeze(dim=1)\<close> on a tensor of rank 3.\<close>

definition unsqueeze1 :: "tensor3 \<Rightarrow> tensor4" where
  "unsqueeze1 x = map (\<lambda>w. [w]) x"

text \<open>\<open>torch.transpose(x, 1, 2)\<close> on a tensor of rank 3.\<close>

definition transpose12 :: "tensor3 \<Rightarrow> tensor3" where
  "transpose12 x = map transpose x"

text \<open>\<open>torch.mean(x, dim=1)\<close> on a tensor of rank 3.\<close>

definition mean1 :: "tensor3 \<Rightarrow> tensor2l" where
  "mean1 x = map (\<lambda>s. map (\<lambda>column. sum_list column / real (length column)) (transpose s)) x"

text \<open>
  The loop \<open>for layer in self.encoder\<close>; \<open>masks i\<close> are the two dropout masks drawn in the
  \<open>i\<close>-th block.
\<close>

fun encoder_loop :: "TransformerBlock list \<Rightarrow> nat \<Rightarrow> (nat \<Rightarrow> mask \<times> mask) \<Rightarrow> tensor3 \<Rightarrow> tensor3" where
  "encoder_loop [] i masks x = x"
| "encoder_loop (layer # layers) i masks x =
     encoder_loop layers (Suc i) masks
       (TransformerBlock_forward layer (fst (masks i)) (snd (masks i)) x)"

text \<open>\<open>EEGTransformer.forward(x)\<close>; the two statements that are commented out are absent.\<close>

definition EEGTransformer_forward :: "EEGTransformer \<Rightarrow> (nat \<Rightarrow> mask \<times> mask) \<Rightarrow> tensor3 \<Rightarrow> tensor2l" where
  "EEGTransformer_forward model masks x =
     (let x = unsqueeze1 x;
          x = convnet model x;
          x = transpose12 x;
          x = encoder_loop (encoder model) 0 masks x;
          x = mean1 x;
          x = fc model x
      in x)"

subsection \<open>The shapes in the convolutional stack\<close>

text \<open>
  The stack \<open>self.convnet\<close> is made of library layers. What each does to the shape of its
  input, a list of sizes, is written out below; a shape that the layer does not accept
  raises. Convolution and pooling have no padding and no dilation here, so a size \<open>n\<close>
  becomes \<open>(n - kernel) div stride + 1\<close>. A convolution with no output channel raises
  in its forward pass.
\<close>

type_synonym shape = "nat list"

definition conv2d_shape :: "nat \<Rightarrow> nat \<Rightarrow> nat \<times> nat \<Rightarrow> nat \<times> nat \<Rightarrow> shape \<Rightarrow> error + shape" where
  "conv2d_shape in_channels out_channels kernel_size stride s =
     (case s of
        [n, c, h, w] \<Rightarrow>
          if 0 < out_channels \<and> c = in_channels \<and> fst kernel_size \<le> h \<and>
             snd kernel_size \<le> w
          then Inr [n, out_channels, (h - fst kernel_size) div fst stride + 1,
                    (w - snd kernel_size) div snd stride + 1]
          else Inl RuntimeError
      | [c, h, w] \<Rightarrow>
          if 0 < out_channels \<and> c = in_channels \<and> fst kernel_size \<le> h \<and>
             snd kernel_size \<le> w
          then Inr [out_channels, (h - fst kernel_size) div fst stride + 1,
                    (w - snd kernel_size) div snd stride + 1]
          else Inl RuntimeError
      | _ \<Rightarrow> Inl RuntimeError)"

text \<open>
  \<open>nn.BatchNorm2d\<close> wants a batch of rank 4 with \<open>num_features\<close> channels, and in training
  mode more than one value per channel.
\<close>

definition batchnorm2d_shape :: "nat \<Rightarrow> bool \<Rightarrow> shape \<Rightarrow> error + shape" where
  "batchnorm2d_shape num_features training_mode s =
     (case s of
        [n, c, h, w] \<Rightarrow>
          if training_mode \<and> n * h * w = 1 then Inl ValueError
          else if c = num_features then Inr s
          else Inl RuntimeError
      | _ \<Rightarrow> Inl ValueError)"

definition avgpool2d_shape :: "nat \<times> nat \<Rightarrow> nat \<times> nat \<Rightarrow> shape \<Rightarrow> error + shape" where
  "avgpool2d_shape kernel_size stride s =
     (case s of
        [n, c, h, w] \<Rightarrow>
          if fst kernel_size \<le> h \<and> snd kernel_size \<le> w
          then Inr [n, c, (h - fst kernel_size) div fst stride + 1,
                    (w - snd kernel_size) div snd stride + 1]
          else Inl RuntimeError
      | [c, h, w] \<Rightarrow>
          if fst kernel_size \<le> h \<and> snd kernel_size \<le> w
          then Inr [c, (h - fst kernel_size) div fst stride + 1,
                    (w - snd kernel_size) div snd stride + 1]
          else Inl RuntimeError
      | _ \<Rightarrow> Inl RuntimeError)"

text \<open>\<open>nn.SiLU\<close> and \<open>nn.Dropout\<close> work entry by entry.\<close>

definition elementwise_shape :: "shape \<Rightarrow> error + shape" where
  "elementwise_shape s = Inr s"

definition flatten_shape :: "nat \<Rightarrow> shape \<Rightarrow> error + shape" where
  "flatten_shape start_dim s =
     (if start_dim < length s then Inr (take start_dim s @ [prod_list (drop start_dim s)])
      else Inl IndexError)"

text \<open>\<open>nn.Sequential\<close>: the layers in order, the first failure ends the pass.\<close>

fun sequential :: "(shape \<Rightarrow> error + shape) list \<Rightarrow> shape \<Rightarrow> error + shape" where
  "sequential [] s = Inr s"
| "sequential (layer # layers) s =
     (case layer s of Inl e \<Rightarrow> Inl e | Inr s' \<Rightarrow> sequential layers s')"

definition convnet_layers :: "nat \<Rightarrow> bool \<Rightarrow> (shape \<Rightarrow> error + shape) list" where
  "convnet_layers input_embedding_size training_mode =
     [conv2d_shape 1 40 (1, 20) (1, 1),
      batchnorm2d_shape 40 training_mode,
      elementwise_shape,
      conv2d_shape 40 40 (22, 1) (1, 1),
      batchnorm2d_shape 40 training_mode,
      elementwise_shape,
      avgpool2d_shape (1, 30) (1, 15),
      elementwise_shape,
      conv2d_shape 40 input_embedding_size (1, 1) (1, 1),
      flatten_shape 2]"

definition unsqueeze_shape :: "nat \<Rightarrow> shape \<Rightarrow> error + shape" where
  "unsqueeze_shape axis s =
     (if axis \<le> length s then Inr (take axis s @ [1] @ drop axis s) else Inl IndexError)"

definition transpose_shape :: "nat \<Rightarrow> nat \<Rightarrow> shape \<Rightarrow> error + shape" where
  "transpose_shape dim0 dim1 s =
     (if dim0 < length s \<and> dim1 < length s then Inr (s[dim0 := s ! dim1, dim1 := s ! dim0])
      else Inl IndexError)"

text \<open>
  The featurizer: lines 85 and 86 of \<open>forward\<close>, the stack and the transposition that
  turns its output into a sequence of embedding vectors.
\<close>

definition featurizer_shape :: "nat \<Rightarrow> bool \<Rightarrow> shape \<Rightarrow> error + shape" where
  "featurizer_shape input_embedding_size training_mode s =
     sequential (convnet_layers input_embedding_size training_mode @ [transpose_shape 1 2]) s"

subsection \<open>Concrete blocks\<close>




section \<open>Concrete batches\<close>

text \<open>
  Inputs at which the routine is run below. \<open>const_window v\<close> is a window of shape
  \<open>(1, 22, 1125)\<close> whose samples all equal \<open>v\<close>; \<open>zero_rng\<close> is the generator whose raw
  draws are all 0. The samples of the batches below are small whole numbers, which 32-bit
  floats hold exactly: at these inputs the conversion of a sample is the identity \<open>id\<close>.
\<close>

definition const_window :: "'a \<Rightarrow> 'a window" where
  "const_window v = replicate 1 (replicate 22 (replicate 1125 v))"

definition zero_rng :: rng where
  "zero_rng i = 0"

text \<open>A batch of four windows, one of each class.\<close>

definition batch4 :: "int window list" where
  "batch4 = map const_window [10, 11, 12, 13]"

definition labels4 :: "int list" where
  "labels4 = [3, 1, 0, 2]"

text \<open>Labels for \<open>batch4\<close> in which class 3 does not occur.\<close>

definition labels_without_3 :: "int list" where
  "labels_without_3 = [0, 0, 1, 2]"

text \<open>A batch of three windows.\<close>

definition batch3 :: "int window list" where
  "batch3 = map const_window [10, 11, 12]"

definition labels3 :: "int list" where
  "labels3 = [0, 1, 2]"

text \<open>
  A batch of eight windows in which class 0 has five examples and the classes 1, 2, 3 one
  each; the samples of a window of class \<open>c\<close> all equal \<open>10 + c\<close>.
\<close>

definition batch8 :: "int window list" where
  "batch8 = map const_window [10, 10, 10, 10, 10, 11, 12, 13]"

definition labels8 :: "int list" where
  "labels8 = [0, 0, 0, 0, 0, 1, 2, 3]"

text \<open>
  The synthetic window that is built when every source window equals \<open>const_window v\<close>:
  the eight segments hold \<open>v\<close>, the last 125 samples are never written.
\<close>

definition spliced_const :: "'a::zero \<Rightarrow> 'a window" where
  "spliced_const v = replicate 1 (replicate 22 (replicate 1000 v @ replicate 125 0))"

section \<open>Properties of \<open>interaug\<close>\<close>

subsection \<open>The random calls\<close>

lemma advance_0: "advance 0 g = g"
  by (simp add: advance_def)

lemma slice_put_same:
  "lo \<le> length t \<Longrightarrow> length v = hi - lo \<Longrightarrow> slice lo hi (take lo t @ v @ drop hi t) = v"
  by (simp add: slice_def min_def)

lemma slice_put_before:
  "hi' \<le> lo \<Longrightarrow> lo \<le> length t \<Longrightarrow> slice lo' hi' (take lo t @ rest) = slice lo' hi' t"
  by (auto simp add: slice_def drop_take min_def)

lemma slice_put_after:
  "hi \<le> lo' \<Longrightarrow> lo \<le> hi \<Longrightarrow> hi \<le> length t \<Longrightarrow> length v = hi - lo \<Longrightarrow>
   slice lo' hi' (take lo t @ v @ drop hi t) = slice lo' hi' t"
  by (simp add: slice_def min_def)

lemma length_slice: "length (slice lo hi xs) = min (hi - lo) (length xs - lo)"
  by (simp add: slice_def)

lemma length_put:
  "hi \<le> length t \<Longrightarrow> lo \<le> hi \<Longrightarrow> length v = hi - lo \<Longrightarrow> length (take lo t @ v @ drop hi t) = length t"
  by simp

lemma shuffle_mset:
  "i < length xs \<Longrightarrow> mset (fst (shuffle i xs g)) = mset xs"
proof (induction i xs g rule: shuffle.induct)
  case (1 xs g)
  then show ?case by simp
next
  case (2 i xs g)
  define j where "j = g 0 mod (Suc (Suc i))"
  have j: "j < length xs" using 2(2) unfolding j_def
    by (meson Suc_lessD less_trans_Suc mod_less_divisor not_less_eq zero_less_Suc less_le_trans linorder_not_less)
  have "mset (xs[Suc i := xs ! j, j := xs ! Suc i]) = mset xs"
    using mset_swap[OF j 2(2)] .
  moreover have "i < length (xs[Suc i := xs ! j, j := xs ! Suc i])" using 2(2) by simp
  ultimately show ?case using 2(1)[OF j_def[symmetric, THEN sym]] by (simp add: Let_def j_def)
qed

lemma permutation_mset: "mset (fst (permutation n g)) = mset [0..<n]"
  by (cases n) (simp_all add: permutation_def shuffle_mset del: upt_Suc)

lemma window_shape_okD:
  "window_shape_ok w \<Longrightarrow> \<exists>p. w = [p] \<and> length p = 22 \<and> (\<forall>r\<in>set p. length r = 1125)"
  by (cases w) (auto simp: window_shape_ok_def list_all_iff)

lemma window_shape_okI:
  "length p = 22 \<Longrightarrow> (\<And>r. r \<in> set p \<Longrightarrow> length r = 1125) \<Longrightarrow> window_shape_ok [p]"
  by (simp add: window_shape_ok_def list_all_iff)

lemma set_segment_ok:
  assumes t: "window_shape_ok tgt" and s: "window_shape_ok src" and rj: "rj < 9"
  shows "\<exists>w'. set_segment rj tgt src = Inr w' \<and> window_shape_ok w' \<and>
           segment rj w' = segment rj src \<and> (\<forall>j. j \<noteq> rj \<longrightarrow> segment j w' = segment j tgt)"
proof -
  from t obtain tp where tgt: "tgt = [tp]" and ltp: "length tp = 22"
    and rtp: "\<And>r. r \<in> set tp \<Longrightarrow> length r = 1125" using window_shape_okD by blast
  from s obtain sp where src: "src = [sp]" and lsp: "length sp = 22"
    and rsp: "\<And>r. r \<in> set sp \<Longrightarrow> length r = 1125" using window_shape_okD by blast
  define lo where "lo = rj * 125"
  define hi where "hi = (rj + 1) * 125"
  have lohi: "lo \<le> hi" "hi \<le> 1125" "hi - lo = 125" using rj by (simp_all add: lo_def hi_def)
  define vp where "vp = map (slice lo hi) sp"
  have lvp: "length vp = 22" by (simp add: vp_def lsp)
  have rvp: "\<And>r. r \<in> set vp \<Longrightarrow> length r = 125"
    using rsp lohi by (auto simp: vp_def length_slice)
  have v: "segment rj src = [vp]" by (simp add: segment_def src vp_def lo_def hi_def)
  have bc: "broadcast 22 (map (broadcast 125) vp) = vp"
    using lvp rvp by (simp add: broadcast_def map_idI)
  define w' where "w' = [map2 (\<lambda>trow vrow. take lo trow @ vrow @ drop hi trow) tp vp]"
  have ok: "broadcastable 1 [vp] \<and>
      list_all (\<lambda>p. broadcastable 22 p \<and> list_all (broadcastable 125) p) [vp]"
    using lvp rvp by (simp add: broadcastable_def list_all_iff)
  have res: "set_segment rj tgt src = Inr w'"
  proof -
    have b1: "broadcast (Suc 0) [vp] = [vp]" by (simp add: broadcast_def)
    show ?thesis
      unfolding set_segment_def Let_def v using ok
      by (simp add: b1 bc w'_def tgt lo_def hi_def)
  qed
  have row: "\<And>i. i < 22 \<Longrightarrow> length (tp ! i) = 1125 \<and> length (vp ! i) = 125"
    using rtp rvp ltp lvp by (metis nth_mem)
  have shape: "window_shape_ok w'"
    unfolding w'_def
  proof (rule window_shape_okI)
    show "length (map2 (\<lambda>trow vrow. take lo trow @ vrow @ drop hi trow) tp vp) = 22"
      by (simp add: ltp lvp)
  next
    fix r assume "r \<in> set (map2 (\<lambda>trow vrow. take lo trow @ vrow @ drop hi trow) tp vp)"
    then obtain i where i: "i < 22" and r: "r = take lo (tp ! i) @ vp ! i @ drop hi (tp ! i)"
      by (auto simp: set_conv_nth ltp lvp)
    show "length r = 1125" using row[OF i] lohi by (simp add: r)
  qed
  have same: "segment rj w' = segment rj src"
    unfolding v unfolding segment_def w'_def lo_def[symmetric] hi_def[symmetric]
    using row lohi
    by (auto simp: list_eq_iff_nth_eq ltp lvp slice_put_same)
  have other: "segment j w' = segment j tgt" if "j \<noteq> rj" for j
  proof -
    have "slice (j * 125) ((j + 1) * 125) (take lo (tp ! i) @ vp ! i @ drop hi (tp ! i))
          = slice (j * 125) ((j + 1) * 125) (tp ! i)" if i: "i < 22" for i
    proof (cases "j < rj")
      case True
      then have "(j + 1) * 125 \<le> lo" by (simp add: lo_def)
      then show ?thesis using row[OF i] lohi by (simp add: slice_put_before)
    next
      case False
      with \<open>j \<noteq> rj\<close> have "hi \<le> j * 125" by (simp add: hi_def)
      then show ?thesis using row[OF i] lohi by (simp add: slice_put_after)
    qed
    then show ?thesis
      unfolding segment_def w'_def tgt
      by (auto simp: list_eq_iff_nth_eq ltp lvp)
  qed
  from res shape same other show ?thesis by blast
qed

lemma randint_ok:
  "0 < n \<Longrightarrow> randint 0 n m g = Inr (map (\<lambda>i. g i mod n) [0..<m], advance m g)"
  by (simp add: randint_def)

lemma randint_empty: "randint 0 0 m g = Inl ValueError"
  by (simp add: randint_def)

lemma advance_advance: "advance m (advance n g) = advance (n + m) g"
  by (rule ext) (simp add: advance_def ac_simps)

lemma fill_segments_ok:
  assumes "tmp_data \<noteq> []" and "\<forall>s\<in>set tmp_data. window_shape_ok s"
    and "window_shape_ok w" and "distinct rjs" and "\<forall>j\<in>set rjs. j < 8"
  shows "\<exists>w'. fill_segments rjs tmp_data w g = Inr (w', advance (8 * length rjs) g) \<and>
           window_shape_ok w' \<and>
           (\<forall>j\<in>set rjs. \<exists>s\<in>set tmp_data. segment j w' = segment j s) \<and>
           (\<forall>j. j \<notin> set rjs \<longrightarrow> segment j w' = segment j w)"
  using assms(3-5)
proof (induction rjs arbitrary: w g)
  case Nil
  then show ?case by (simp add: advance_0)
next
  case (Cons rj rjs)
  define n where "n = length tmp_data"
  have n: "0 < n" using assms(1) by (simp add: n_def)
  define src where "src = tmp_data ! (map (\<lambda>i. g i mod n) [0..<8] ! rj)"
  have rj: "rj < 8" using Cons.prems by simp
  then have "map (\<lambda>i. g i mod n) [0..<8] ! rj = g rj mod n" by (simp del: upt_Suc)
  then have "src = tmp_data ! (g rj mod n)" by (simp add: src_def)
  then have src_in: "src \<in> set tmp_data" using n by (simp add: n_def)
  then have src_ok: "window_shape_ok src" using assms(2) by blast
  from set_segment_ok[OF Cons.prems(1) src_ok, of rj] rj
  obtain w1 where w1: "set_segment rj w src = Inr w1" "window_shape_ok w1"
    "segment rj w1 = segment rj src" "\<And>j. j \<noteq> rj \<Longrightarrow> segment j w1 = segment j w"
    by auto
  from Cons.prems have d: "distinct rjs" "\<forall>j\<in>set rjs. j < 8" "rj \<notin> set rjs" by auto
  from Cons.IH[OF w1(2) d(1,2), of "advance 8 g"]
  obtain w' where w': "fill_segments rjs tmp_data w1 (advance 8 g) = Inr (w', advance (8 * length rjs) (advance 8 g))"
    "window_shape_ok w'" "\<forall>j\<in>set rjs. \<exists>s\<in>set tmp_data. segment j w' = segment j s"
    "\<And>j. j \<notin> set rjs \<Longrightarrow> segment j w' = segment j w1"
    by auto
  have run: "fill_segments (rj # rjs) tmp_data w g = Inr (w', advance (8 * length (rj # rjs)) g)"
    using w1(1) w'(1) n by (simp add: randint_ok n_def[symmetric] src_def[symmetric] advance_advance del: upt_Suc)
  have a: "\<forall>j\<in>set (rj # rjs). \<exists>s\<in>set tmp_data. segment j w' = segment j s"
    using w'(3) w'(4)[OF d(3)] w1(3) src_in by auto
  have b: "\<forall>j. j \<notin> set (rj # rjs) \<longrightarrow> segment j w' = segment j w"
    using w'(4) w1(4) by auto
  from run w'(2) a b show ?case by blast
qed

lemma fill_segments_empty: "fill_segments (rj # rjs) [] w g = Inl ValueError"
  by (simp add: randint_empty)

lemma zeros_window_ok: "window_shape_ok (zeros_window :: 'a::zero window)"
  by (simp add: zeros_window_def window_shape_ok_def list_all_iff)

lemma fill_windows_ok:
  assumes "tmp_data \<noteq> []" and "\<forall>s\<in>set tmp_data. window_shape_ok s"
  shows "\<exists>ws. fill_windows n tmp_data g = Inr (ws, advance (64 * n) g) \<and> length ws = n \<and>
           (\<forall>w\<in>set ws. window_shape_ok w \<and> segment 8 w = segment 8 zeros_window \<and>
              (\<forall>j<8. \<exists>s\<in>set tmp_data. segment j w = segment j s))"
proof (induction n arbitrary: g)
  case 0
  then show ?case by (simp add: advance_0)
next
  case (Suc n)
  have "distinct [0..<8::nat]" "\<forall>j\<in>set [0..<8::nat]. j < 8" by simp_all
  from fill_segments_ok[OF assms zeros_window_ok this, of g]
  obtain w where w: "fill_segments [0..<8] tmp_data zeros_window g = Inr (w, advance 64 g)"
    "window_shape_ok w" "\<forall>j<8. \<exists>s\<in>set tmp_data. segment j w = segment j s"
    "segment 8 w = segment 8 zeros_window"
    by (auto simp del: upt_Suc)
  from Suc.IH[of "advance 64 g"]
  obtain ws where ws: "fill_windows n tmp_data (advance 64 g) = Inr (ws, advance (64 * n) (advance 64 g))"
    "length ws = n"
    "\<forall>w\<in>set ws. window_shape_ok w \<and> segment 8 w = segment 8 zeros_window \<and>
              (\<forall>j<8. \<exists>s\<in>set tmp_data. segment j w = segment j s)"
    by auto
  have "fill_windows (Suc n) tmp_data g = Inr (w # ws, advance (64 * Suc n) g)"
    using w(1) ws(1) by (simp add: advance_advance del: upt_Suc)
  then show ?case using w ws by auto
qed

lemma fill_windows_empty: "fill_windows (Suc n) ([] :: 'a::zero window list) g = Inl ValueError"
proof -
  have "[0..<8::nat] = 0 # [Suc 0..<8]" by (subst upt_rec) simp
  then have "fill_segments [0..<8] [] (zeros_window :: 'a window) g = Inl ValueError"
    by (simp only: fill_segments_empty)
  then show ?thesis by (simp del: upt_Suc)
qed

lemma index_rows_Inr:
  "index_rows a idx = Inr r \<longleftrightarrow> (\<forall>i\<in>set idx. i < length a) \<and> r = map (nth a) idx"
  by (auto simp: index_rows_def list_all_iff)

lemma index_rows_Inl:
  "index_rows a idx = Inl e \<longleftrightarrow> (\<exists>i\<in>set idx. length a \<le> i) \<and> e = IndexError"
  by (auto simp: index_rows_def list_all_iff not_less)

lemma set_where_eq: "set (where_eq label c) = {i. i < length label \<and> label ! i = c}"
  by (auto simp: where_eq_def)

lemma map_nth_where_eq: "map (nth label) (where_eq label c) = filter (\<lambda>l. l = c) label"
proof -
  have "filter (\<lambda>l. l = c) (map (nth label) [0..<length label])
        = map (nth label) (filter ((\<lambda>l. l = c) \<circ> nth label) [0..<length label])"
    by (rule filter_map)
  then show ?thesis by (simp add: where_eq_def map_nth comp_def)
qed

lemma index_rows_label:
  "index_rows label (where_eq label c) = Inr (filter (\<lambda>l. l = c) label)"
  by (simp add: index_rows_Inr set_where_eq map_nth_where_eq)

lemma where_eq_Nil: "where_eq label c = [] \<longleftrightarrow> c \<notin> set label"
proof -
  have "where_eq label c = [] \<longleftrightarrow> set (where_eq label c) = {}" by simp
  also have "\<dots> \<longleftrightarrow> c \<notin> set label" by (auto simp: set_where_eq in_set_conv_nth)
  finally show ?thesis .
qed

lemma augment_class_Inr:
  assumes shapes: "\<forall>s\<in>set timg. window_shape_ok s"
    and run: "augment_class timg label batch_size c g = Inr ((ws, tlab), g')"
  shows "tlab = filter (\<lambda>l. l = c) label \<and> g' = advance (64 * nat (quarter batch_size)) g \<and>
         length ws = nat (quarter batch_size) \<and> 0 \<le> quarter batch_size \<and>
         (\<forall>i\<in>set (where_eq label c). i < length timg) \<and>
         (0 < quarter batch_size \<longrightarrow> c \<in> set label) \<and>
         (\<forall>w\<in>set ws. window_shape_ok w \<and> segment 8 w = segment 8 zeros_window \<and>
            (\<forall>j<8. \<exists>s. s < length label \<and> s < length timg \<and> label ! s = c \<and>
                 segment j w = segment j (timg ! s)))"
proof -
  define cls_idx where "cls_idx = where_eq label c"
  define tmp_data where "tmp_data = map (nth timg) cls_idx"
  define k where "k = nat (quarter batch_size)"
  from run have idx: "\<forall>i\<in>set cls_idx. i < length timg"
    and i1: "index_rows timg cls_idx = Inr tmp_data"
    unfolding augment_class_def Let_def cls_idx_def[symmetric] tmp_data_def
    by (auto split: sum.splits simp: index_rows_Inr)
  from run have q: "0 \<le> quarter batch_size" and fw: "fill_windows k tmp_data g = Inr (ws, g')"
    and tlab: "tlab = filter (\<lambda>l. l = c) label"
    unfolding augment_class_def Let_def cls_idx_def[symmetric] i1 k_def
    by (auto split: sum.splits if_splits prod.splits simp: index_rows_label cls_idx_def)
  have src: "s \<in> set tmp_data \<Longrightarrow>
      \<exists>i. i < length label \<and> i < length timg \<and> label ! i = c \<and> s = timg ! i" for s
    using idx by (auto simp: tmp_data_def cls_idx_def set_where_eq)
  show ?thesis
  proof (cases k)
    case 0
    with fw have "ws = []" "g' = g" by simp_all
    with 0 tlab q idx show ?thesis by (simp add: k_def advance_0 cls_idx_def)
  next
    case (Suc n)
    have ne: "tmp_data \<noteq> []"
      using fw Suc fill_windows_empty[of n g, where 'a = 'a] by auto
    then have cin: "c \<in> set label" by (simp add: tmp_data_def cls_idx_def where_eq_Nil)
    have ok: "\<forall>s\<in>set tmp_data. window_shape_ok s"
      using src shapes idx by (auto simp: tmp_data_def)
    from fill_windows_ok[OF ne ok, of k g] fw
    have ws: "g' = advance (64 * k) g" "length ws = k"
      "\<forall>w\<in>set ws. window_shape_ok w \<and> segment 8 w = segment 8 zeros_window \<and>
              (\<forall>j<8. \<exists>s\<in>set tmp_data. segment j w = segment j s)"
      by auto
    have "\<forall>w\<in>set ws. window_shape_ok w \<and> segment 8 w = segment 8 zeros_window \<and>
            (\<forall>j<8. \<exists>s. s < length label \<and> s < length timg \<and> label ! s = c \<and>
                 segment j w = segment j (timg ! s))"
      using ws(3) src by metis
    with ws(1,2) tlab q idx cin show ?thesis by (simp add: k_def cls_idx_def)
  qed
qed

lemma augment_class_ok:
  assumes shapes: "\<forall>s\<in>set timg. window_shape_ok s"
    and len: "\<forall>i\<in>set (where_eq label c). i < length timg"
    and q: "0 \<le> quarter batch_size"
    and cls: "c \<in> set label \<or> quarter batch_size = 0"
  shows "\<exists>ws tlab g'. augment_class timg label batch_size c g = Inr ((ws, tlab), g')"
proof -
  define tmp_data where "tmp_data = map (nth timg) (where_eq label c)"
  have i1: "index_rows timg (where_eq label c) = Inr tmp_data"
    using len by (simp add: index_rows_Inr tmp_data_def)
  have "\<exists>ws g'. fill_windows (nat (quarter batch_size)) tmp_data g = Inr (ws, g')"
  proof (cases "quarter batch_size = 0")
    case True
    then show ?thesis by simp
  next
    case False
    with cls have "tmp_data \<noteq> []" by (simp add: tmp_data_def where_eq_Nil)
    moreover have "\<forall>s\<in>set tmp_data. window_shape_ok s"
      using shapes len by (auto simp: tmp_data_def)
    ultimately show ?thesis using fill_windows_ok by blast
  qed
  then show ?thesis
    unfolding augment_class_def Let_def i1 using q by (auto simp: index_rows_label)
qed

lemma class_loop_Inr:
  assumes shapes: "\<forall>s\<in>set timg. window_shape_ok s"
    and run: "class_loop cs timg label batch_size g = Inr (parts, g')"
  shows "g' = advance (64 * nat (quarter batch_size) * length cs) g \<and>
         (cs \<noteq> [] \<longrightarrow> 0 \<le> quarter batch_size) \<and>
         map snd parts = map (\<lambda>c. filter (\<lambda>l. l = c) label) cs \<and>
         (\<forall>c\<in>set cs. (\<forall>i\<in>set (where_eq label c). i < length timg) \<and>
                      (0 < quarter batch_size \<longrightarrow> c \<in> set label)) \<and>
         list_all2 (\<lambda>c part. length (fst part) = nat (quarter batch_size) \<and>
            (\<forall>w\<in>set (fst part). window_shape_ok w \<and> segment 8 w = segment 8 zeros_window \<and>
               (\<forall>j<8. \<exists>s. s < length label \<and> s < length timg \<and> label ! s = c \<and>
                    segment j w = segment j (timg ! s)))) cs parts"
  using run
proof (induction cs arbitrary: g parts)
  case Nil
  then show ?case by (auto simp: advance_0)
next
  case (Cons c cs)
  from Cons.prems obtain ws tlab g1 rest where
    a: "augment_class timg label batch_size c g = Inr ((ws, tlab), g1)" and
    r: "class_loop cs timg label batch_size g1 = Inr (rest, g')" and
    p: "parts = (ws, tlab) # rest"
    by (auto split: sum.splits prod.splits)
  note A = augment_class_Inr[OF shapes a]
  note R = Cons.IH[OF r]
  have "g' = advance (64 * nat (quarter batch_size) * length (c # cs)) g"
    using A R by (simp add: advance_advance algebra_simps)
  then show ?case using A R p by simp
qed

lemma class_loop_ok:
  assumes shapes: "\<forall>s\<in>set timg. window_shape_ok s"
    and q: "0 \<le> quarter batch_size"
    and cls: "\<forall>c\<in>set cs. (\<forall>i\<in>set (where_eq label c). i < length timg) \<and>
                (c \<in> set label \<or> quarter batch_size = 0)"
  shows "\<exists>parts g'. class_loop cs timg label batch_size g = Inr (parts, g')"
  using cls
proof (induction cs arbitrary: g)
  case Nil
  then show ?case by simp
next
  case (Cons c cs)
  from Cons.prems have "\<forall>i\<in>set (where_eq label c). i < length timg"
    "c \<in> set label \<or> quarter batch_size = 0" by simp_all
  from augment_class_ok[OF shapes this(1) q this(2), of g]
  obtain ws tlab g1 where a: "augment_class timg label batch_size c g = Inr ((ws, tlab), g1)"
    by blast
  from Cons.IH[of g1] Cons.prems obtain rest g' where
    "class_loop cs timg label batch_size g1 = Inr (rest, g')" by auto
  with a show ?case by simp
qed

lemma permutation_set: "set (fst (permutation n g)) = {0..<n}"
  using permutation_mset[of n g] by (metis mset_eq_setD set_upt)

lemma permutation_length: "length (fst (permutation n g)) = n"
  using permutation_mset[of n g] by (metis mset_eq_length length_upt diff_zero)

lemma mset_map_nth_permutation:
  "length xs = n \<Longrightarrow> mset (map (nth xs) (fst (permutation n g))) = mset xs"
proof -
  assume n: "length xs = n"
  have "mset (map (nth xs) (fst (permutation n g))) = image_mset (nth xs) (mset (fst (permutation n g)))"
    by simp
  also have "\<dots> = image_mset (nth xs) (mset [0..<n])" by (simp only: permutation_mset)
  also have "\<dots> = mset (map (nth xs) [0..<length xs])" by (simp add: n)
  also have "\<dots> = mset xs" by (simp only: map_nth)
  finally show ?thesis .
qed

lemma nth_append_right: "length a = k \<Longrightarrow> k \<le> p \<Longrightarrow> (a @ r) ! p = r ! (p - k)"
  by (simp add: nth_append)

lemma nth_append_left: "p < length a \<Longrightarrow> (a @ r) ! p = a ! p"
  by (simp add: nth_append)

lemma nth_four_blocks:
  assumes "length a = k" "length b = k" "length c = k" "length d = k" "p < 4 * k"
    and "\<forall>w\<in>set a. P 0 w" "\<forall>w\<in>set b. P 1 w" "\<forall>w\<in>set c. P 2 w" "\<forall>w\<in>set d. P 3 w"
  shows "P (int (p div k)) ((a @ b @ c @ d) ! p)"
proof -
  consider "p < k" | "k \<le> p" "p < 2 * k" | "2 * k \<le> p" "p < 3 * k" | "3 * k \<le> p" "p < 4 * k"
    using assms(5) by linarith
  then show ?thesis
  proof cases
    case 1
    then have dv: "p div k = 0" by simp
    have "(a @ b @ c @ d) ! p = a ! p" using 1 assms(1) by (simp add: nth_append_left)
    with dv show ?thesis using assms(6) 1 assms(1) by simp
  next
    case 2
    have dv: "p div k = 1" by (rule div_nat_eqI) (use 2 in \<open>simp_all add: mult.commute\<close>)
    have r: "p - k < k" using 2 by linarith
    have "(a @ b @ c @ d) ! p = (b @ c @ d) ! (p - k)"
      using 2 assms(1) by (simp add: nth_append_right)
    then have "(a @ b @ c @ d) ! p = b ! (p - k)"
      using r assms(2) by (simp add: nth_append_left)
    with dv show ?thesis using assms(7) r assms(2) by simp
  next
    case 3
    have dv: "p div k = 2" by (rule div_nat_eqI) (use 3 in \<open>simp_all add: mult.commute\<close>)
    have r: "p - k - k < k" "k \<le> p" "k \<le> p - k" using 3 by linarith+
    have "(a @ b @ c @ d) ! p = (b @ c @ d) ! (p - k)"
      using r assms(1) by (simp add: nth_append_right)
    also have "\<dots> = (c @ d) ! (p - k - k)"
      using r assms(2) by (simp add: nth_append_right)
    also have "\<dots> = c ! (p - k - k)"
      using r assms(3) by (simp add: nth_append_left)
    finally have "(a @ b @ c @ d) ! p = c ! (p - k - k)" .
    with dv show ?thesis using assms(8) r assms(3) by simp
  next
    case 4
    have dv: "p div k = 3" by (rule div_nat_eqI) (use 4 in \<open>simp_all add: mult.commute\<close>)
    have r: "p - k - k - k < k" "k \<le> p" "k \<le> p - k" "k \<le> p - k - k"
      using 4 by linarith+
    have "(a @ b @ c @ d) ! p = (b @ c @ d) ! (p - k)"
      using r assms(1) by (simp add: nth_append_right)
    also have "\<dots> = (c @ d) ! (p - k - k)"
      using r assms(2) by (simp add: nth_append_right)
    also have "\<dots> = d ! (p - k - k - k)"
      using r assms(3) by (simp add: nth_append_right)
    finally have "(a @ b @ c @ d) ! p = d ! (p - k - k - k)" .
    with dv show ?thesis using assms(9) r assms(4) by simp
  qed
qed

lemma interaug_Inr:
  assumes shapes: "\<forall>s\<in>set timg. window_shape_ok s"
    and run: "interaug to_float32 timg label batch_size g = Inr (ws, ls)"
  defines "k \<equiv> nat (quarter batch_size)"
  defines "perm \<equiv> fst (permutation (4 * k) (advance (256 * k) g))"
  shows "\<exists>aug_data. length aug_data = 4 * k \<and> 0 \<le> quarter batch_size \<and>
           4 * k \<le> length (class_labels label) \<and>
           ws = map (float_window to_float32) (map (nth aug_data) perm) \<and>
           ls = map (nth (class_labels label)) perm \<and>
           (\<forall>p<4 * k. spliced_from timg label (int (p div k)) (aug_data ! p))"
proof -
  from run obtain parts g' where
    cl: "class_loop [0, 1, 2, 3] timg label batch_size g = Inr (parts, g')"
    by (auto simp: interaug_def split: sum.splits)
  note C = class_loop_Inr[OF shapes cl]
  from C have g': "g' = advance (256 * k) g" by (simp add: k_def)
  from C have q: "0 \<le> quarter batch_size" by simp
  from C have labs: "concat (map snd parts) = class_labels label" by (simp add: class_labels_def)
  from C have "list_all2 (\<lambda>c part. length (fst part) = k \<and>
       (\<forall>w\<in>set (fst part). spliced_from timg label c w)) [0, 1, 2, 3] parts"
    unfolding spliced_from_def k_def by blast
  then obtain p0 p1 p2 p3 where parts: "parts = [p0, p1, p2, p3]"
    and l: "length (fst p0) = k" "length (fst p1) = k" "length (fst p2) = k" "length (fst p3) = k"
    and s: "\<forall>w\<in>set (fst p0). spliced_from timg label 0 w"
           "\<forall>w\<in>set (fst p1). spliced_from timg label 1 w"
           "\<forall>w\<in>set (fst p2). spliced_from timg label 2 w"
           "\<forall>w\<in>set (fst p3). spliced_from timg label 3 w"
    by (auto simp: list_all2_Cons1)
  define aug_data where "aug_data = fst p0 @ fst p1 @ fst p2 @ fst p3"
  have ad: "concat (map fst parts) = aug_data" by (simp add: parts aug_data_def)
  have len: "length aug_data = 4 * k" using l by (simp add: aug_data_def)
  have prov: "\<forall>p<4 * k. spliced_from timg label (int (p div k)) (aug_data ! p)"
  proof (intro allI impI)
    fix p assume "p < 4 * k"
    from nth_four_blocks[where P = "spliced_from timg label", OF l this] s
    show "spliced_from timg label (int (p div k)) (aug_data ! p)"
      by (simp add: aug_data_def)
  qed
  from run obtain sd where r1: "index_rows aug_data perm = Inr sd"
    and wsd: "ws = map (float_window to_float32) sd"
    and r2: "index_rows (class_labels label) perm = Inr ls"
    unfolding interaug_def cl perm_def g'[symmetric] len[symmetric]
    by (auto simp: Let_def ad labs split: sum.splits)
  from r2 have "\<forall>i\<in>set perm. i < length (class_labels label)" by (simp add: index_rows_Inr)
  then have "\<forall>i<4 * k. i < length (class_labels label)"
    by (simp add: perm_def permutation_set)
  then have bound: "4 * k \<le> length (class_labels label)"
    by (metis not_less less_irrefl linorder_not_le)
  from r1 r2 wsd have "ws = map (float_window to_float32) (map (nth aug_data) perm)"
    "ls = map (nth (class_labels label)) perm"
    by (simp_all add: index_rows_Inr)
  with len q bound prov show ?thesis by blast
qed

subsection \<open>The whole routine\<close>

lemma quarter_pos: "0 < quarter b \<longleftrightarrow> 4 \<le> b"
  by (auto simp: quarter_def)

lemma quarter_nonneg: "0 \<le> b \<Longrightarrow> 0 \<le> quarter b"
  by (simp add: quarter_def)

lemma quarter_multiple: "0 \<le> b \<Longrightarrow> b mod 4 = 0 \<Longrightarrow> 4 * nat (quarter b) = nat b"
  by (auto simp: quarter_def)

lemma mset_class_labels:
  "mset (class_labels label) = mset (filter (\<lambda>l. l \<in> {0, 1, 2, 3}) label)"
  by (induction label) (auto simp: class_labels_def)

lemma class_labels_all:
  assumes "set label \<subseteq> {0, 1, 2, 3}"
  shows "mset (class_labels label) = mset label"
proof -
  have "filter (\<lambda>l. l \<in> {0, 1, 2, 3}) label = label"
    using assms by (intro filter_True) auto
  then show ?thesis by (simp add: mset_class_labels)
qed

lemma interaug_ok:
  assumes shapes: "\<forall>s\<in>set timg. window_shape_ok s"
    and q: "0 \<le> quarter batch_size"
    and idx: "length label \<le> length timg"
    and cls: "{0, 1, 2, 3} \<subseteq> set label \<or> quarter batch_size = 0"
    and len: "4 * nat (quarter batch_size) \<le> length (class_labels label)"
  shows "\<exists>ws ls. interaug to_float32 timg label batch_size g = Inr (ws, ls)"
proof -
  define k where "k = nat (quarter batch_size)"
  have "\<forall>c\<in>set [0, 1, 2, 3]. (\<forall>i\<in>set (where_eq label c). i < length timg) \<and>
                (c \<in> set label \<or> quarter batch_size = 0)"
    using idx cls by (auto simp: set_where_eq)
  from class_loop_ok[OF shapes q this, of g] obtain parts g' where
    cl: "class_loop [0, 1, 2, 3] timg label batch_size g = Inr (parts, g')" by blast
  note C = class_loop_Inr[OF shapes cl]
  from C have labs: "concat (map snd parts) = class_labels label" by (simp add: class_labels_def)
  from C have "list_all2 (\<lambda>c part. length (fst part) = k) [0, 1, 2, 3] parts"
    unfolding k_def by (rule_tac list_all2_mono) auto
  then have alen: "length (concat (map fst parts)) = 4 * k"
    by (auto simp: list_all2_Cons1)
  define perm where "perm = fst (permutation (4 * k) g')"
  have p: "set perm = {0..<4 * k}" by (simp add: perm_def permutation_set)
  have r1: "index_rows (concat (map fst parts)) perm = Inr (map (nth (concat (map fst parts))) perm)"
    using p alen by (simp add: index_rows_Inr)
  have r2: "index_rows (class_labels label) perm = Inr (map (nth (class_labels label)) perm)"
    using p len by (simp add: index_rows_Inr k_def)
  show ?thesis
    unfolding interaug_def cl using r1 r2
    by (simp add: Let_def alen labs perm_def)
qed

lemma const_window_ok: "window_shape_ok (const_window v)"
  by (simp add: const_window_def window_shape_ok_def list_all_iff)

lemma augment_class_Inl:
  assumes shapes: "\<forall>s\<in>set timg. window_shape_ok s"
    and idx: "length label \<le> length timg"
    and run: "augment_class timg label batch_size c g = Inl e"
  shows "e = ValueError"
proof -
  define tmp_data where "tmp_data = map (nth timg) (where_eq label c)"
  have i1: "index_rows timg (where_eq label c) = Inr tmp_data"
    using idx by (auto simp: index_rows_Inr tmp_data_def set_where_eq)
  have ok: "\<forall>s\<in>set tmp_data. window_shape_ok s"
    using shapes idx by (auto simp: tmp_data_def set_where_eq)
  show ?thesis
  proof (cases "quarter batch_size < 0")
    case True
    with run show ?thesis
      unfolding augment_class_def Let_def i1 by (simp add: index_rows_label)
  next
    case False
    with run have fw: "fill_windows (nat (quarter batch_size)) tmp_data g = Inl e"
      unfolding augment_class_def Let_def i1
      by (auto simp: index_rows_label split: sum.splits)
    show ?thesis
    proof (cases "tmp_data = []")
      case True
      with fw show ?thesis
        using fill_windows_empty[where 'a = 'a] by (cases "nat (quarter batch_size)") auto
    next
      case False
      from fill_windows_ok[OF False ok, of "nat (quarter batch_size)" g] fw
      show ?thesis by auto
    qed
  qed
qed

lemma augment_class_missing:
  assumes "c \<notin> set label" and "4 \<le> batch_size"
  shows "augment_class (timg :: 'a::zero window list) label batch_size c g = Inl ValueError"
proof -
  have e: "where_eq label c = []" using assms(1) by (simp add: where_eq_Nil)
  have q: "0 < quarter batch_size" using assms(2) by (simp add: quarter_pos)
  then obtain n where n: "nat (quarter batch_size) = Suc n" by (cases "nat (quarter batch_size)") auto
  have fw: "fill_windows (nat (quarter batch_size)) ([] :: 'a window list) g = Inl ValueError"
    by (simp only: n fill_windows_empty)
  have i: "index_rows timg [] = Inr []" "index_rows label [] = Inr []"
    by (simp_all add: index_rows_def)
  show ?thesis
    unfolding augment_class_def Let_def e i using q by (simp add: fw)
qed

lemma class_loop_missing:
  assumes shapes: "\<forall>s\<in>set timg. window_shape_ok s"
    and idx: "length label \<le> length timg"
    and c: "c \<in> set cs" "c \<notin> set label" and b: "4 \<le> batch_size"
  shows "class_loop cs timg label batch_size g = Inl ValueError"
  using c(1)
proof (induction cs arbitrary: g)
  case Nil
  then show ?case by simp
next
  case (Cons c' cs)
  show ?case
  proof (cases "augment_class timg label batch_size c' g")
    case (Inl e)
    with augment_class_Inl[OF shapes idx Inl] show ?thesis by simp
  next
    case (Inr r)
    obtain part g1 where r: "r = (part, g1)" by (cases r)
    have "c' \<noteq> c" using Inr augment_class_missing[OF c(2) b, of timg g] by auto
    with Cons.prems have "c \<in> set cs" by simp
    from Cons.IH[OF this, of g1] show ?thesis using Inr r by simp
  qed
qed

lemma class_loop_no_rows:
  assumes "quarter batch_size = 0" and "length label \<le> length timg"
  shows "class_loop cs timg label batch_size g =
           Inr (map (\<lambda>c. ([], filter (\<lambda>l. l = c) label)) cs, g)"
proof (induction cs)
  case Nil
  then show ?case by simp
next
  case (Cons c cs)
  have "index_rows timg (where_eq label c) = Inr (map (nth timg) (where_eq label c))"
    using assms(2) by (auto simp: index_rows_Inr set_where_eq)
  then have "augment_class timg label batch_size c g = Inr (([], filter (\<lambda>l. l = c) label), g)"
    unfolding augment_class_def Let_def using assms(1) by (simp add: index_rows_label)
  with Cons show ?case by simp
qed

lemma permutation_0: "permutation 0 g = ([], g)"
  by (simp add: permutation_def)

lemma length_class_labels: "set label \<subseteq> {0, 1, 2, 3} \<Longrightarrow> length (class_labels label) = length label"
  using class_labels_all[of label] by (metis size_mset)

lemma interaug_returns_full_batch:
  assumes shapes: "\<forall>s\<in>set timg. window_shape_ok s"
    and "length timg = length label" and n: "int (length label) = batch_size"
    and m: "batch_size mod 4 = 0" and cls: "set label = {0, 1, 2, 3}"
  shows "\<exists>ws ls. interaug to_float32 timg label batch_size g = Inr (ws, ls) \<and>
           length ws = length label \<and> mset ls = mset label"
proof -
  define k where "k = nat (quarter batch_size)"
  have b: "0 \<le> batch_size" using n by simp
  have k: "4 * k = length label" using quarter_multiple[OF b m] n by (simp add: k_def)
  have l: "length (class_labels label) = length label" using cls by (simp add: length_class_labels)
  have "\<exists>ws ls. interaug to_float32 timg label batch_size g = Inr (ws, ls)"
    using shapes assms(2) cls k l by (intro interaug_ok) (simp_all add: quarter_nonneg b k_def)
  then obtain ws ls where run: "interaug to_float32 timg label batch_size g = Inr (ws, ls)" by blast
  from interaug_Inr[OF shapes run] obtain aug_data where
    a: "length aug_data = 4 * k"
       "ws = map (float_window to_float32)
               (map (nth aug_data) (fst (permutation (4 * k) (advance (256 * k) g))))"
       "ls = map (nth (class_labels label)) (fst (permutation (4 * k) (advance (256 * k) g)))"
    unfolding k_def by blast
  have "length ws = length label" by (simp add: a(2) permutation_length k)
  moreover have "mset ls = mset (class_labels label)"
    unfolding a(3) by (rule mset_map_nth_permutation) (simp add: l k)
  then have "mset ls = mset label" using cls by (simp add: class_labels_all)
  ultimately show ?thesis using run by blast
qed

subsection \<open>The batch of eight windows\<close>

lemma nth_slice: "m < hi - lo \<Longrightarrow> lo + m < length xs \<Longrightarrow> slice lo hi xs ! m = xs ! (lo + m)"
  by (simp add: slice_def)

lemma row_eqI:
  assumes l: "length r = 1125" "length r' = 1125"
    and s: "\<forall>j<9. slice (j * 125) ((j + 1) * 125) r = slice (j * 125) ((j + 1) * 125) r'"
  shows "r = r'"
proof (rule nth_equalityI)
  show "length r = length r'" using l by simp
next
  fix t assume "t < length r"
  then have t: "t < 1125" using l by simp
  define j where "j = t div 125"
  define m where "m = t mod 125"
  have j: "j < 9" using t by (simp add: j_def less_mult_imp_div_less)
  have tm: "t = j * 125 + m" by (simp add: j_def m_def)
  have m: "m < (j + 1) * 125 - j * 125" by (simp add: m_def)
  have "r ! t = slice (j * 125) ((j + 1) * 125) r ! m"
    using m t l by (simp add: nth_slice tm)
  also have "\<dots> = slice (j * 125) ((j + 1) * 125) r' ! m" using s j by simp
  also have "\<dots> = r' ! t" using m t l by (simp add: nth_slice tm)
  finally show "r ! t = r' ! t" .
qed

lemma window_eqI:
  assumes "window_shape_ok w" "window_shape_ok w'" and s: "\<forall>j<9. segment j w = segment j w'"
  shows "w = w'"
proof -
  from assms(1) obtain p where w: "w = [p]" and lp: "length p = 22"
    and rp: "\<And>r. r \<in> set p \<Longrightarrow> length r = 1125" using window_shape_okD by blast
  from assms(2) obtain p' where w': "w' = [p']" and lp': "length p' = 22"
    and rp': "\<And>r. r \<in> set p' \<Longrightarrow> length r = 1125" using window_shape_okD by blast
  have "p = p'"
  proof (rule nth_equalityI)
    show "length p = length p'" using lp lp' by simp
  next
    fix i assume "i < length p"
    then have i: "i < 22" using lp by simp
    have "\<forall>j<9. slice (j * 125) ((j + 1) * 125) (p ! i) = slice (j * 125) ((j + 1) * 125) (p' ! i)"
    proof (intro allI impI)
      fix j :: nat assume "j < 9"
      with s have "map (slice (j * 125) ((j + 1) * 125)) p = map (slice (j * 125) ((j + 1) * 125)) p'"
        by (simp add: segment_def w w')
      then have "map (slice (j * 125) ((j + 1) * 125)) p ! i = map (slice (j * 125) ((j + 1) * 125)) p' ! i"
        by simp
      then show "slice (j * 125) ((j + 1) * 125) (p ! i) = slice (j * 125) ((j + 1) * 125) (p' ! i)"
        using i lp lp' by simp
    qed
    moreover have "length (p ! i) = 1125" "length (p' ! i) = 1125"
      using i lp lp' rp rp' by simp_all
    ultimately show "p ! i = p' ! i" by (intro row_eqI) simp_all
  qed
  then show ?thesis by (simp add: w w')
qed

lemma segment_const_window:
  "j < 9 \<Longrightarrow> segment j (const_window v) = [replicate 22 (replicate 125 v)]"
  by (simp add: segment_def const_window_def slice_def min_def)

lemma segment_spliced_const:
  "j < 8 \<Longrightarrow> segment j (spliced_const v) = [replicate 22 (replicate 125 v)]"
  by (simp add: segment_def spliced_const_def slice_def min_def)

lemma segment_spliced_const_tail:
  "segment 8 (spliced_const v) = segment 8 zeros_window"
  by (simp add: segment_def spliced_const_def zeros_window_def slice_def)

lemma spliced_const_ok: "window_shape_ok (spliced_const v)"
  by (simp add: spliced_const_def window_shape_ok_def list_all_iff)

lemma spliced_from_const:
  assumes sp: "spliced_from timg label c w"
    and src: "\<forall>s. s < length label \<and> s < length timg \<and> label ! s = c \<longrightarrow> timg ! s = const_window v"
  shows "w = spliced_const v"
proof (rule window_eqI)
  show "window_shape_ok w" using sp by (simp add: spliced_from_def)
  show "window_shape_ok (spliced_const v)" by (rule spliced_const_ok)
  show "\<forall>j<9. segment j w = segment j (spliced_const v)"
  proof (intro allI impI)
    fix j :: nat assume j: "j < 9"
    show "segment j w = segment j (spliced_const v)"
    proof (cases "j < 8")
      case True
      with sp obtain s where "s < length label" "s < length timg" "label ! s = c"
        "segment j w = segment j (timg ! s)" by (auto simp: spliced_from_def)
      with src have "segment j w = segment j (const_window v)" by simp
      with True show ?thesis by (simp add: segment_const_window segment_spliced_const)
    next
      case False
      with j have "j = 8" by simp
      with sp show ?thesis by (simp add: spliced_from_def segment_spliced_const_tail)
    qed
  qed
qed

lemma batch8_shapes: "\<forall>s\<in>set batch8. window_shape_ok s"
  by (simp add: batch8_def const_window_ok)

lemma nat_less_8:
  "(s::nat) < 8 \<Longrightarrow> s = 0 \<or> s = 1 \<or> s = 2 \<or> s = 3 \<or> s = 4 \<or> s = 5 \<or> s = 6 \<or> s = 7"
  by arith

lemma batch8_source:
  "\<forall>s. s < length labels8 \<and> s < length batch8 \<and> labels8 ! s = c \<longrightarrow>
       batch8 ! s = const_window (10 + c)"
proof (intro allI impI)
  fix s assume a: "s < length labels8 \<and> s < length batch8 \<and> labels8 ! s = c"
  then have "s < 8" by (simp add: labels8_def)
  from nat_less_8[OF this] a show "batch8 ! s = const_window (10 + c)"
    by (elim disjE) (simp_all add: labels8_def batch8_def)
qed

lemma class_labels_labels8: "class_labels labels8 = [0, 0, 0, 0, 0, 1, 2, 3]"
  by (simp add: class_labels_def labels8_def)

lemma quarter_8: "quarter 8 = 2"
  by (simp add: quarter_def)

lemma interaug_batch8:
  "\<exists>aug_data. length aug_data = 8 \<and>
     (\<forall>p<8. aug_data ! p = spliced_const (10 + int (p div 2))) \<and>
     interaug to_float32 batch8 labels8 8 g =
       Inr (map (float_window to_float32)
              (map (nth aug_data) (fst (permutation 8 (advance 512 g)))),
            map (nth [0, 0, 0, 0, 0, 1, 2, 3]) (fst (permutation 8 (advance 512 g))))"
proof -
  have "\<exists>ws ls. interaug to_float32 batch8 labels8 8 g = Inr (ws, ls)"
    by (rule interaug_ok)
       (simp_all add: batch8_shapes quarter_8 class_labels_labels8, simp_all add: batch8_def labels8_def)
  then obtain ws ls where run: "interaug to_float32 batch8 labels8 8 g = Inr (ws, ls)" by blast
  from interaug_Inr[OF batch8_shapes run] obtain aug_data where
    a: "length aug_data = 8"
       "ws = map (float_window to_float32)
               (map (nth aug_data) (fst (permutation 8 (advance 512 g))))"
       "ls = map (nth (class_labels labels8)) (fst (permutation 8 (advance 512 g)))"
       "\<forall>p<8. spliced_from batch8 labels8 (int (p div 2)) (aug_data ! p)"
    by (auto simp: quarter_8)
  have "\<forall>p<8. aug_data ! p = spliced_const (10 + int (p div 2))"
    using a(4) batch8_source spliced_from_const by blast
  with a(1-3) run show ?thesis by (auto simp: class_labels_labels8)
qed

lemma permutation_hits: "p < n \<Longrightarrow> \<exists>i<n. fst (permutation n g) ! i = p"
proof -
  assume "p < n"
  then have "p \<in> set (fst (permutation n g))" by (simp add: permutation_set)
  then show ?thesis by (simp add: in_set_conv_nth permutation_length)
qed

lemma advance_zero_rng: "advance n zero_rng = zero_rng"
  by (rule ext) (simp add: advance_def zero_rng_def)

lemma permutation_8_zero_rng: "fst (permutation 8 zero_rng) = [1, 2, 3, 4, 5, 6, 7, 0]"
  by code_simp

lemma float_window_id: "float_window id w = w"
  by (simp add: float_window_def)

lemma segment_float_window:
  "segment j (float_window to_float32 w) = float_window to_float32 (segment j w)"
  by (simp add: segment_def float_window_def slice_def take_map drop_map)

subsection \<open>Every outcome of the random calls comes from a stream\<close>

text \<open>
  Any eight indices below a positive bound are what \<open>randint\<close> returns for some stream, and
  any permutation of \<open>0, ..., n - 1\<close> is what \<open>permutation\<close> returns for some stream. So a
  statement about every stream is a statement about every outcome of the draws.
\<close>

lemma randint_onto:
  assumes "\<forall>v\<in>set vs. v < n" and n: "0 < n"
  shows "\<exists>g. randint 0 n (length vs) g = Inr (vs, advance (length vs) g)"
proof -
  define g where "g = (\<lambda>i. if i < length vs then vs ! i else 0)"
  have m: "map (\<lambda>i. g i mod n) [0..<length vs] = vs"
  proof (rule nth_equalityI)
    show "length (map (\<lambda>i. g i mod n) [0..<length vs]) = length vs" by simp
  next
    fix i assume "i < length (map (\<lambda>i. g i mod n) [0..<length vs])"
    then have i: "i < length vs" by simp
    then have "vs ! i < n" using assms(1) by simp
    then show "map (\<lambda>i. g i mod n) [0..<length vs] ! i = vs ! i"
      using i by (simp add: g_def)
  qed
  have "randint 0 n (length vs) g = Inr (vs, advance (length vs) g)"
    using n m by (simp add: randint_def)
  then show ?thesis by blast
qed

lemma shuffle_onto:
  assumes "i < length xs" and "length ys = length xs"
    and "mset (take (Suc i) ys) = mset (take (Suc i) xs)"
    and "drop (Suc i) ys = drop (Suc i) xs"
  shows "\<exists>g. fst (shuffle i xs g) = ys"
  using assms
proof (induction i arbitrary: xs)
  case 0
  then obtain x xs' where xs: "xs = x # xs'" by (cases xs) auto
  from 0 obtain y ys' where ys: "ys = y # ys'" by (cases ys) auto
  from 0 have "ys = xs" by (simp add: xs ys)
  then show ?case by simp
next
  case (Suc i)
  define v where "v = ys ! Suc i"
  have li: "Suc i < length ys" using Suc.prems by simp
  have "v \<in> set (take (Suc (Suc i)) ys)"
    using li by (auto simp: v_def in_set_conv_nth intro!: exI[of _ "Suc i"])
  then have "v \<in> set (take (Suc (Suc i)) xs)"
    using Suc.prems(3) by (metis mset_eq_setD)
  then obtain j where j: "j < Suc (Suc i)" "j < length xs" "xs ! j = v"
    by (auto simp: in_set_conv_nth)
  define xs' where "xs' = xs[Suc i := xs ! j, j := xs ! Suc i]"
  have lx: "length xs' = length xs" by (simp add: xs'_def)
  have sw: "mset xs' = mset xs"
    unfolding xs'_def using mset_swap[OF j(2) Suc.prems(1)] .
  have at: "xs' ! Suc i = v"
    using j Suc.prems(1) by (cases "j = Suc i") (simp_all add: xs'_def)
  have dr: "drop (Suc (Suc i)) xs' = drop (Suc (Suc i)) xs"
    using j(1) by (simp add: xs'_def drop_update_cancel)
  have tk: "take (Suc (Suc i)) xs' = take (Suc i) xs' @ [v]"
    using Suc.prems(1) lx at by (simp add: take_Suc_conv_app_nth)
  have tky: "take (Suc (Suc i)) ys = take (Suc i) ys @ [v]"
    using li by (simp add: take_Suc_conv_app_nth v_def)
  have "mset (take (Suc (Suc i)) xs') + mset (drop (Suc (Suc i)) xs') = mset xs'"
    by (metis append_take_drop_id mset_append)
  moreover have "mset (take (Suc (Suc i)) xs) + mset (drop (Suc (Suc i)) xs) = mset xs"
    by (metis append_take_drop_id mset_append)
  ultimately have "mset (take (Suc (Suc i)) xs') = mset (take (Suc (Suc i)) xs)"
    using sw dr by (metis add_right_cancel)
  then have "add_mset v (mset (take (Suc i) ys)) = add_mset v (mset (take (Suc i) xs'))"
    using Suc.prems(3) tk tky by simp
  then have m: "mset (take (Suc i) ys) = mset (take (Suc i) xs')" by simp
  have d: "drop (Suc i) ys = drop (Suc i) xs'"
  proof -
    have "drop (Suc i) ys = v # drop (Suc (Suc i)) ys"
      using li by (simp add: Cons_nth_drop_Suc v_def)
    moreover have "drop (Suc i) xs' = v # drop (Suc (Suc i)) xs'"
      using Suc.prems(1) lx at by (metis Cons_nth_drop_Suc)
    ultimately show ?thesis using dr Suc.prems(4) by simp
  qed
  have "i < length xs'" using Suc.prems(1) lx by simp
  from Suc.IH[OF this _ m d] Suc.prems(2) lx obtain g' where g': "fst (shuffle i xs' g') = ys"
    by auto
  define g where "g = (\<lambda>n. case n of 0 \<Rightarrow> j | Suc m \<Rightarrow> g' m)"
  have "g 0 mod Suc (Suc i) = j" using j(1) by (simp add: g_def)
  moreover have "advance 1 g = g'" by (rule ext) (simp add: advance_def g_def)
  ultimately have "shuffle (Suc i) xs g = shuffle i xs' g'"
    by (simp add: Let_def xs'_def)
  with g' show ?case by metis
qed

lemma permutation_onto:
  assumes "mset ys = mset [0..<n]"
  shows "\<exists>g. fst (permutation n g) = ys"
proof (cases n)
  case 0
  with assms show ?thesis by (simp add: permutation_def)
next
  case (Suc m)
  have l: "length ys = n" using assms by (metis size_mset length_upt diff_zero)
  have "\<exists>g. fst (shuffle m [0..<n] g) = ys"
    by (rule shuffle_onto) (use Suc l assms in \<open>simp_all del: upt_Suc\<close>)
  then show ?thesis by (simp add: permutation_def Suc)
qed

section \<open>The claims about \<open>interaug\<close>\<close>

text \<open>
  Claim C1, evaluated at a failing input. The batch \<open>batch8\<close> has eight windows, every
  class is represented and \<open>batch_size = 8\<close> is divisible by 4. Whatever the random draws,
  the call returns eight windows and eight labels, but the labels are those of the input:
  five of class 0 and one of each other class, where the claim has two of each class.
\<close>

theorem interaug_batch8_label_counts:
  "\<exists>ws ls. interaug to_float32 batch8 labels8 8 g = Inr (ws, ls) \<and> length ws = 8 \<and> length ls = 8 \<and>
     count_list ls 0 = 5 \<and> count_list ls 1 = 1 \<and> count_list ls 2 = 1 \<and> count_list ls 3 = 1"
proof -
  have "length batch8 = length labels8" "int (length labels8) = 8" "(8::int) mod 4 = 0"
    "set labels8 = {0, 1, 2, 3}"
    by (auto simp: batch8_def labels8_def)
  from interaug_returns_full_batch[OF batch8_shapes this, of to_float32 g] obtain ws ls where
    r: "interaug to_float32 batch8 labels8 8 g = Inr (ws, ls)" "length ws = length labels8"
       "mset ls = mset labels8" by blast
  have c: "count_list ls x = count_list labels8 x" for x
    using r(3) by (metis count_mset)
  have "length ls = length labels8" using r(3) by (metis size_mset)
  with r c show ?thesis by (simp add: labels8_def)
qed

text \<open>
  Claim C2, evaluated at the same failing input. The window at position 2 of \<open>aug_data\<close>
  is built from the one example of class 1 (its segments hold 11), the label at position 2
  of \<open>aug_label\<close> is the third label 0 of the input. Both go to the same output index, so
  whatever the random draws, some returned window built from class 1 carries the label 0.
  (\<open>to_float32\<close> is the conversion of a sample at the end of the routine.)
\<close>

theorem interaug_batch8_label_mismatch:
  "\<exists>ws ls. interaug to_float32 batch8 labels8 8 g = Inr (ws, ls) \<and>
     (\<exists>i<8. ws ! i = float_window to_float32 (spliced_const 11) \<and> ls ! i = 0)"
proof -
  define perm where "perm = fst (permutation 8 (advance 512 g))"
  from interaug_batch8[of to_float32 g] obtain aug_data where
    a: "length aug_data = 8" "\<forall>p<8. aug_data ! p = spliced_const (10 + int (p div 2))"
       "interaug to_float32 batch8 labels8 8 g =
          Inr (map (float_window to_float32) (map (nth aug_data) perm),
               map (nth [0, 0, 0, 0, 0, 1, 2, 3]) perm)"
    unfolding perm_def by blast
  from permutation_hits[of 2 8 "advance 512 g"] obtain i where
    i: "i < 8" "perm ! i = 2" unfolding perm_def by auto
  have l: "length perm = 8" by (simp add: perm_def permutation_length)
  have "map (float_window to_float32) (map (nth aug_data) perm) ! i =
      float_window to_float32 (spliced_const 11)" using i l a(2) by simp
  moreover have "map (nth [0, 0, 0, 0, 0, 1, 2, 3::int]) perm ! i = 0" using i l by simp
  ultimately show ?thesis using a(3) i(1) by blast
qed

text \<open>
  Claim C3, evaluated at the same failing input. The claim has every segment of a returned
  window equal to the same segment of an input window that shares the class label of the
  returned window. Whatever the random draws, the returned window built from the example
  of class 1 carries the label 0, and its first segment (samples 11) is the first segment
  of none of the input windows labelled 0 (samples 10). The samples 10, ..., 13 fit in 32
  bits, so the conversion at the end of the routine is the identity here.
\<close>

theorem interaug_batch8_segment_not_from_label:
  "\<exists>ws ls. interaug id batch8 labels8 8 g = Inr (ws, ls) \<and>
     (\<exists>i<8. \<not> (\<exists>s<8. labels8 ! s = ls ! i \<and> segment 0 (ws ! i) = segment 0 (batch8 ! s)))"
proof -
  define perm where "perm = fst (permutation 8 (advance 512 g))"
  from interaug_batch8[of id g] obtain aug_data where
    a: "length aug_data = 8" "\<forall>p<8. aug_data ! p = spliced_const (10 + int (p div 2))"
       "interaug id batch8 labels8 8 g =
          Inr (map (float_window id) (map (nth aug_data) perm),
               map (nth [0, 0, 0, 0, 0, 1, 2, 3]) perm)"
    unfolding perm_def by blast
  from permutation_hits[of 2 8 "advance 512 g"] obtain i where
    i: "i < 8" "perm ! i = 2" unfolding perm_def by auto
  have l: "length perm = 8" by (simp add: perm_def permutation_length)
  have w: "map (float_window id) (map (nth aug_data) perm) ! i = spliced_const 11"
    using i l a(2) by (simp add: float_window_id)
  have lab: "map (nth [0, 0, 0, 0, 0, 1, 2, 3::int]) perm ! i = 0" using i l by simp
  have "\<not> (\<exists>s<8. labels8 ! s = 0 \<and>
            segment 0 (spliced_const (11::int)) = segment 0 (batch8 ! s))"
  proof
    assume "\<exists>s<8. labels8 ! s = 0 \<and> segment 0 (spliced_const (11::int)) = segment 0 (batch8 ! s)"
    then obtain s where s: "s < 8" "labels8 ! s = 0"
      "segment 0 (spliced_const (11::int)) = segment 0 (batch8 ! s)" by blast
    from s(1,2) have "batch8 ! s = const_window 10"
      using batch8_source[of 0] by (simp add: labels8_def batch8_def)
    with s(3) show False by (simp add: segment_const_window segment_spliced_const)
  qed
  with w lab a(3) i(1) show ?thesis by auto
qed

text \<open>
  Claim C5, as amended. When a class of 0, 1, 2, 3 has no example in the batch and
  \<open>batch_size\<close> is at least 4, the call does raise: the first segment draw for the class
  is \<open>np.random.randint(0, 0, 8)\<close>, a \<open>ValueError\<close>. (The input windows have the shape
  \<open>(1, 22, 1125)\<close> and there is a window for every label.)
\<close>

theorem interaug_missing_class_raises:
  assumes "list_all window_shape_ok timg" and "length label \<le> length timg"
    and "c \<in> {0, 1, 2, 3}" and "c \<notin> set label" and "4 \<le> batch_size"
  shows "interaug to_float32 timg label batch_size g = Inl ValueError"
proof -
  from assms(1) have "\<forall>s\<in>set timg. window_shape_ok s" by (simp add: list_all_iff)
  moreover note assms(2)
  moreover from assms(3) have "c \<in> set [0, 1, 2, 3]" by simp
  ultimately have "class_loop [0, 1, 2, 3] timg label batch_size g = Inl ValueError"
    using assms(4,5) by (rule class_loop_missing)
  then show ?thesis by (simp add: interaug_def)
qed

theorem interaug_missing_class_raises_witness:
  "list_all window_shape_ok batch4 \<and> length labels_without_3 \<le> length batch4 \<and>
   (3::int) \<in> {0, 1, 2, 3} \<and> 3 \<notin> set labels_without_3 \<and> (4::int) \<le> 4 \<and>
   interaug id batch4 labels_without_3 4 zero_rng = Inl ValueError"
  using interaug_missing_class_raises[of batch4 labels_without_3 3 4 id zero_rng]
  by (simp add: batch4_def labels_without_3_def const_window_ok)

text \<open>
  The claim as stated (no error is raised when a class subset is empty) fails on a batch of
  four windows labelled 0, 0, 1, 2 with \<open>batch_size = 4\<close>.
\<close>

theorem interaug_missing_class_counterexample:
  "interaug id batch4 labels_without_3 4 zero_rng = Inl ValueError"
proof -
  have "\<forall>s\<in>set batch4. window_shape_ok s" by (simp add: batch4_def const_window_ok)
  moreover have "length labels_without_3 \<le> length batch4"
    by (simp add: batch4_def labels_without_3_def)
  moreover have "(3::int) \<in> set [0, 1, 2, 3]" by simp
  moreover have "(3::int) \<notin> set labels_without_3" by (simp add: labels_without_3_def)
  moreover have "(4::int) \<le> 4" by simp
  ultimately have "class_loop [0, 1, 2, 3] batch4 labels_without_3 4 zero_rng = Inl ValueError"
    by (rule class_loop_missing)
  then show ?thesis by (simp add: interaug_def)
qed

text \<open>
  Claim C6, as amended. A call with \<open>batch_size = 3\<close> is not rejected:
  \<open>int(3 / 4)\<close> is 0, no synthetic window is built, the permutation of length 0 is
  empty, and the call returns an empty array of windows and an empty array of labels
  (provided there is a window for every label).
\<close>

theorem interaug_batch_size_3_returns:
  assumes "length label \<le> length timg"
  shows "interaug to_float32 timg label 3 g = Inr ([], [])"
proof -
  have "quarter 3 = 0" by (simp add: quarter_def)
  from class_loop_no_rows[OF this assms]
  show ?thesis by (simp add: interaug_def permutation_0 index_rows_def)
qed

theorem interaug_batch_size_3_returns_witness:
  "length labels3 \<le> length batch3 \<and> interaug id batch3 labels3 3 zero_rng = Inr ([], [])"
  using interaug_batch_size_3_returns[of labels3 batch3 id zero_rng]
  by (simp add: labels3_def batch3_def)

text \<open>
  The claim as stated (the call fails rather than returning a result) fails on a batch of
  three windows labelled 0, 1, 2.
\<close>

theorem interaug_batch_size_3_counterexample:
  "interaug id batch3 labels3 3 zero_rng = Inr ([], [])"
proof -
  have "quarter 3 = 0" by (simp add: quarter_def)
  moreover have "length labels3 \<le> length batch3" by (simp add: labels3_def batch3_def)
  ultimately have "class_loop [0, 1, 2, 3] batch3 labels3 3 zero_rng =
      Inr (map (\<lambda>c. ([], filter (\<lambda>l. l = c) labels3)) [0, 1, 2, 3], zero_rng)"
    by (rule class_loop_no_rows)
  then show ?thesis by (simp add: interaug_def permutation_0 index_rows_def)
qed

text \<open>
  Claim C9. When the batch holds \<open>batch_size\<close> windows and labels, \<open>batch_size\<close> is
  divisible by 4 and the labels that occur are exactly 0, 1, 2, 3, the call returns, and
  the returned labels are a permutation of the input labels: both have the same multiset,
  so each class occurs as often in the output as in the input.
\<close>

theorem interaug_labels_permutation:
  assumes "list_all window_shape_ok timg" and "length timg = length label"
    and "int (length label) = batch_size" and "batch_size mod 4 = 0"
    and "set label = {0, 1, 2, 3}"
  shows "\<exists>ws ls. interaug to_float32 timg label batch_size g = Inr (ws, ls) \<and> mset ls = mset label"
proof -
  from assms(1) have "\<forall>s\<in>set timg. window_shape_ok s" by (simp add: list_all_iff)
  from interaug_returns_full_batch[OF this assms(2-5), of to_float32 g] show ?thesis by blast
qed

theorem interaug_labels_permutation_witness:
  "list_all window_shape_ok batch4 \<and> length batch4 = length labels4 \<and>
   int (length labels4) = 4 \<and> (4::int) mod 4 = 0 \<and> set labels4 = {0, 1, 2, 3} \<and>
   (\<exists>ws ls. interaug id batch4 labels4 4 zero_rng = Inr (ws, ls) \<and> mset ls = mset labels4)"
proof -
  have h: "list_all window_shape_ok batch4" "length batch4 = length labels4"
    "int (length labels4) = 4" "(4::int) mod 4 = 0" "set labels4 = {0, 1, 2, 3}"
    by (auto simp: batch4_def labels4_def const_window_ok)
  from interaug_labels_permutation[OF h, of id zero_rng] h show ?thesis by blast
qed

section \<open>Further properties of \<open>interaug\<close>\<close>

text \<open>
  When the batch holds \<open>batch_size\<close> windows and labels, \<open>batch_size\<close> is divisible by 4
  and the labels that occur are exactly 0, 1, 2, 3, the call returns \<open>batch_size\<close> windows
  and \<open>batch_size\<close> labels.
\<close>

theorem interaug_returns_batch_size_pairs:
  assumes "list_all window_shape_ok timg" and "length timg = length label"
    and "int (length label) = batch_size" and "batch_size mod 4 = 0"
    and "set label = {0, 1, 2, 3}"
  shows "\<exists>ws ls. interaug to_float32 timg label batch_size g = Inr (ws, ls) \<and>
           int (length ws) = batch_size \<and> int (length ls) = batch_size"
proof -
  from assms(1) have "\<forall>s\<in>set timg. window_shape_ok s" by (simp add: list_all_iff)
  from interaug_returns_full_batch[OF this assms(2-5), of to_float32 g] obtain ws ls where
    r: "interaug to_float32 timg label batch_size g = Inr (ws, ls)" "length ws = length label"
       "mset ls = mset label" by blast
  from r(3) have "length ls = length label" by (metis size_mset)
  with r assms(3) show ?thesis by auto
qed

theorem interaug_returns_batch_size_pairs_witness:
  "list_all window_shape_ok batch8 \<and> length batch8 = length labels8 \<and>
   int (length labels8) = 8 \<and> (8::int) mod 4 = 0 \<and> set labels8 = {0, 1, 2, 3} \<and>
   (\<exists>ws ls. interaug id batch8 labels8 8 zero_rng = Inr (ws, ls) \<and>
      int (length ws) = 8 \<and> int (length ls) = 8)"
proof -
  have h: "list_all window_shape_ok batch8" "length batch8 = length labels8"
    "int (length labels8) = 8" "(8::int) mod 4 = 0" "set labels8 = {0, 1, 2, 3}"
    by (auto simp: batch8_def labels8_def const_window_ok)
  from interaug_returns_batch_size_pairs[OF h, of id zero_rng] h show ?thesis by blast
qed

text \<open>
  The run on \<open>batch8\<close> with \<open>batch_size = 8\<close> and the generator whose draws are all 0:
  the permutation is 1, 2, ..., 7, 0, the windows come out built from the classes
  0, 1, 1, 2, 2, 3, 3, 0 and the labels are 0, 0, 0, 0, 1, 2, 3, 0. (The samples fit in 32
  bits, so the conversion is the identity.)
\<close>

theorem interaug_batch8_zero_rng:
  "interaug id batch8 labels8 8 zero_rng =
     Inr ([spliced_const 10, spliced_const 11, spliced_const 11, spliced_const 12,
           spliced_const 12, spliced_const 13, spliced_const 13, spliced_const 10],
          [0, 0, 0, 0, 1, 2, 3, 0])"
proof -
  from interaug_batch8[of id zero_rng] obtain aug_data where
    a: "length aug_data = 8" "\<forall>p<8. aug_data ! p = spliced_const (10 + int (p div 2))"
       "interaug id batch8 labels8 8 zero_rng =
          Inr (map (float_window id) (map (nth aug_data) [1, 2, 3, 4, 5, 6, 7, 0]),
               map (nth [0, 0, 0, 0, 0, 1, 2, 3]) [1, 2, 3, 4, 5, 6, 7, 0])"
    by (auto simp: advance_zero_rng permutation_8_zero_rng)
  from a(2) have "aug_data ! 0 = spliced_const 10" "aug_data ! 1 = spliced_const 10"
    "aug_data ! 2 = spliced_const 11" "aug_data ! 3 = spliced_const 11"
    "aug_data ! 4 = spliced_const 12" "aug_data ! 5 = spliced_const 12"
    "aug_data ! 6 = spliced_const 13" "aug_data ! 7 = spliced_const 13"
    by simp_all
  with a(3) show ?thesis by (simp add: float_window_id)
qed

text \<open>
  Every window that \<open>interaug\<close> returns was built in the turn of one class \<open>c\<close> of
  0, 1, 2, 3 of the loop, and for each segment index \<open>j\<close> of 0, ..., 7 its samples on the
  time interval from \<open>125 * j\<close> up to \<open>125 * (j + 1)\<close> are the 32-bit conversions of the
  samples, on the same interval, of an input window whose label is \<open>c\<close>. (The input windows
  have the shape \<open>(1, 22, 1125)\<close>; the class \<open>c\<close> is the class the window was built for,
  which need not be the label returned with it.)
\<close>

theorem interaug_segments_from_build_class:
  assumes "list_all window_shape_ok timg"
    and "interaug to_float32 timg label batch_size g = Inr (ws, ls)"
    and "i < length ws"
  shows "\<exists>c\<in>{0, 1, 2, 3}. \<forall>j<8. \<exists>s. s < length label \<and> s < length timg \<and> label ! s = c \<and>
           segment j (ws ! i) = float_window to_float32 (segment j (timg ! s))"
proof -
  define k where "k = nat (quarter batch_size)"
  define perm where "perm = fst (permutation (4 * k) (advance (256 * k) g))"
  from assms(1) have shapes: "\<forall>s\<in>set timg. window_shape_ok s" by (simp add: list_all_iff)
  from interaug_Inr[OF shapes assms(2)] obtain aug_data where
    a: "length aug_data = 4 * k" "ws = map (float_window to_float32) (map (nth aug_data) perm)"
       "\<forall>p<4 * k. spliced_from timg label (int (p div k)) (aug_data ! p)"
    unfolding k_def perm_def by blast
  have i: "i < length perm" using assms(3) a(2) by simp
  define p where "p = perm ! i"
  have "p \<in> set perm" using i by (simp add: p_def)
  then have p: "p < 4 * k" by (simp add: perm_def permutation_set)
  have w: "ws ! i = float_window to_float32 (aug_data ! p)" using i by (simp add: a(2) p_def)
  have k: "0 < k" using p by (cases k) auto
  have "p div k < 4" using p k by (simp add: less_mult_imp_div_less mult.commute)
  then have c: "int (p div k) \<in> {0, 1, 2, 3}" by (auto simp: less_Suc_eq numeral_eq_Suc)
  from a(3) p have "spliced_from timg label (int (p div k)) (aug_data ! p)" by simp
  then have "\<forall>j<8. \<exists>s. s < length label \<and> s < length timg \<and> label ! s = int (p div k) \<and>
           segment j (aug_data ! p) = segment j (timg ! s)"
    by (simp add: spliced_from_def)
  then have "\<forall>j<8. \<exists>s. s < length label \<and> s < length timg \<and> label ! s = int (p div k) \<and>
           segment j (ws ! i) = float_window to_float32 (segment j (timg ! s))"
    unfolding w segment_float_window by metis
  with c show ?thesis by blast
qed

theorem interaug_segments_from_build_class_witness:
  "list_all window_shape_ok batch4 \<and>
   (\<exists>ws ls. interaug id batch4 labels4 4 zero_rng = Inr (ws, ls) \<and> 0 < length ws \<and>
      (\<exists>c\<in>{0, 1, 2, 3}. \<forall>j<8. \<exists>s. s < length labels4 \<and> s < length batch4 \<and> labels4 ! s = c \<and>
           segment j (ws ! 0) = float_window id (segment j (batch4 ! s))))"
proof -
  have h: "list_all window_shape_ok batch4" by (simp add: batch4_def const_window_ok)
  then have shapes: "\<forall>s\<in>set batch4. window_shape_ok s" by (simp add: list_all_iff)
  have "length batch4 = length labels4" "int (length labels4) = 4" "(4::int) mod 4 = 0"
    "set labels4 = {0, 1, 2, 3}"
    by (auto simp: batch4_def labels4_def)
  from interaug_returns_full_batch[OF shapes this, of id zero_rng] obtain ws ls where
    run: "interaug id batch4 labels4 4 zero_rng = Inr (ws, ls)" and l: "length ws = length labels4"
    by blast
  from l have pos: "0 < length ws" by (simp add: labels4_def)
  from interaug_segments_from_build_class[OF h run pos] h run pos show ?thesis by blast
qed

section \<open>Properties of the classifier\<close>

lemma setitem_cols_Inr:
  "(rows src = rows tgt \<or> rows src = 1) \<and> (cols src = range_len start (cols tgt) step \<or> cols src = 1)
   \<Longrightarrow> \<exists>t. setitem_cols start step tgt src = Inr t \<and> rows t = rows tgt \<and> cols t = cols tgt"
  by (simp add: setitem_cols_def Let_def)

lemma setitem_cols_Inl:
  "\<not> ((rows src = rows tgt \<or> rows src = 1) \<and> (cols src = range_len start (cols tgt) step \<or> cols src = 1))
   \<Longrightarrow> setitem_cols start step tgt src = Inl RuntimeError"
  by (simp add: setitem_cols_def Let_def)

lemma PositionalEncoding_init_cases:
  "(odd E \<and> 3 \<le> E \<longrightarrow> PositionalEncoding_init E C = Inl RuntimeError) \<and>
   (\<not> (odd E \<and> 3 \<le> E) \<longrightarrow> (\<exists>t. PositionalEncoding_init E C = Inr t \<and> rows t = C \<and> cols t = E))"
proof -
  define sines where "sines = \<lparr>rows = C, cols = range_len 0 E 2,
      entry = (\<lambda>p i. sin (real p * div_term E i))\<rparr>"
  define cosines where "cosines = \<lparr>rows = C, cols = range_len 0 E 2,
      entry = (\<lambda>p i. cos (real p * div_term E i))\<rparr>"
  have "\<exists>t. setitem_cols 0 2 (zeros2 C E) sines = Inr t \<and> rows t = rows (zeros2 C E) \<and>
          cols t = cols (zeros2 C E)"
    by (rule setitem_cols_Inr) (simp add: sines_def zeros2_def)
  then obtain t1 where t1: "setitem_cols 0 2 (zeros2 C E) sines = Inr t1" "rows t1 = C" "cols t1 = E"
    by (auto simp: zeros2_def)
  have run: "PositionalEncoding_init E C = setitem_cols 1 2 t1 cosines"
    by (simp add: PositionalEncoding_init_def Let_def sines_def[symmetric] cosines_def[symmetric] t1(1))
  have l0: "range_len 0 E 2 = (E + 1) div 2" by (simp add: range_len_def)
  have l1: "range_len 1 E 2 = E div 2" by (cases E) (simp_all add: range_len_def)
  have fit: "(cols cosines = range_len 1 (cols t1) 2 \<or> cols cosines = 1) \<longleftrightarrow> \<not> (odd E \<and> 3 \<le> E)"
    unfolding cosines_def t1(3) l1 by (simp only: tensor2.simps l0) presburger
  show ?thesis
  proof (cases "odd E \<and> 3 \<le> E")
    case True
    with fit have "setitem_cols 1 2 t1 cosines = Inl RuntimeError"
      by (intro setitem_cols_Inl) blast
    with True run show ?thesis by simp
  next
    case False
    with fit have "(rows cosines = rows t1 \<or> rows cosines = 1) \<and>
        (cols cosines = range_len 1 (cols t1) 2 \<or> cols cosines = 1)"
      by (simp add: cosines_def t1(2))
    from setitem_cols_Inr[OF this] False run t1 show ?thesis by auto
  qed
qed


section \<open>The claims about the classifier\<close>




text \<open>
  Claim C7. The logits do not depend on the linear input embedding or on the table of the
  positional encoder: replacing both in the model leaves the result of \<open>forward\<close> as it
  is, for every input batch and all dropout masks, and the result is the classification
  head applied to the mean over the sequence of the output of the encoder blocks, run on the
  transposed output of the convolutional stack on the raw input.
\<close>

theorem forward_ignores_embedding_and_positions:
  "EEGTransformer_forward (model\<lparr>input_embedding := e, pos_encoding := p\<rparr>) masks x =
     EEGTransformer_forward model masks x \<and>
   EEGTransformer_forward model masks x =
     fc model (mean1 (encoder_loop (encoder model) 0 masks
       (transpose12 (convnet model (unsqueeze1 x)))))"
  by (simp add: EEGTransformer_forward_def)

text \<open>
  Claim C8. For every batch size \<open>N\<close> and every \<open>input_embedding_size\<close> \<open>E\<close> of at least
  1, in training and in evaluation mode, the convolutional stack maps the shape
  \<open>(N, 1, 22, 1125)\<close> to \<open>(N, E, 72)\<close>, and with the transposition of \<open>forward\<close> to
  \<open>(N, 72, E)\<close>: the sequence length 72 comes from 1125 and the kernel and stride
  constants alone, \<open>((1125 - 20 + 1) - 30) div 15 + 1\<close>.
\<close>

theorem convnet_shape_deterministic:
  assumes "0 < E"
  shows "sequential (convnet_layers E tr) [N, 1, 22, 1125] = Inr [N, E, 72] \<and>
         featurizer_shape E tr [N, 1, 22, 1125] = Inr [N, 72, E]"
  using assms
  by (simp add: featurizer_shape_def convnet_layers_def conv2d_shape_def batchnorm2d_shape_def
      elementwise_shape_def avgpool2d_shape_def flatten_shape_def transpose_shape_def)

theorem convnet_shape_deterministic_witness:
  "(0::nat) < 40 \<and>
   sequential (convnet_layers 40 True) [8, 1, 22, 1125] = Inr [8, 40, 72] \<and>
   featurizer_shape 40 True [8, 1, 22, 1125] = Inr [8, 72, 40]"
  using convnet_shape_deterministic[of 40 True 8] by simp

text \<open>
  Claim C10, as amended. \<open>PositionalEncoding.__init__\<close> raises exactly when
  \<open>input_embedding_size\<close> is odd and at least 3: the cosine block has one column more
  than the odd-numbered columns of the table. It returns a table of \<open>num_channels\<close> rows
  and \<open>input_embedding_size\<close> columns exactly when \<open>input_embedding_size\<close> is even or 1. The
  construction of the model fails with it.
\<close>

theorem PositionalEncoding_init_fails_iff:
  "(PositionalEncoding_init E C = Inl RuntimeError \<longleftrightarrow> odd E \<and> 3 \<le> E) \<and>
   ((\<exists>t. PositionalEncoding_init E C = Inr t \<and> shape2 t = (C, E)) \<longleftrightarrow> even E \<or> E = 1) \<and>
   (odd E \<and> 3 \<le> E \<longrightarrow> EEGTransformer_init C E embedding blocks stack head = Inl RuntimeError)"
proof -
  note P = PositionalEncoding_init_cases[of E C]
  have a: "PositionalEncoding_init E C = Inl RuntimeError \<longleftrightarrow> odd E \<and> 3 \<le> E"
    using P by auto
  have e: "even E \<or> E = 1 \<longleftrightarrow> \<not> (odd E \<and> 3 \<le> E)" by presburger
  have b: "(\<exists>t. PositionalEncoding_init E C = Inr t \<and> shape2 t = (C, E)) \<longleftrightarrow> even E \<or> E = 1"
    unfolding e using P by (auto simp: shape2_def)
  have c: "odd E \<and> 3 \<le> E \<longrightarrow> EEGTransformer_init C E embedding blocks stack head = Inl RuntimeError"
    using a by (auto simp: EEGTransformer_init_def)
  from a b c show ?thesis by blast
qed

theorem PositionalEncoding_init_fails_iff_witness:
  "odd (3::nat) \<and> (3::nat) \<le> 3 \<and> PositionalEncoding_init 3 22 = Inl RuntimeError \<and>
   EEGTransformer_init 22 3 id [] (\<lambda>x. []) id = Inl RuntimeError"
  using PositionalEncoding_init_fails_iff[of 3 22 id "[]" "\<lambda>x. []" id] by simp

text \<open>
  The claim as stated (construction fails for every odd \<open>input_embedding_size\<close>) fails at
  \<open>input_embedding_size = 1\<close>: the cosine block has one column, the odd-numbered columns of
  the table are none, and a single column is expanded to no column.
\<close>

theorem PositionalEncoding_init_1_counterexample:
  "map_sum id shape2 (PositionalEncoding_init 1 22) = Inr (22, 1)"
  by (simp add: PositionalEncoding_init_def setitem_cols_def zeros2_def Let_def shape2_def
      range_len_def)

end
